theory Spec2Isabelle
  imports Complex_Main "HOL-Library.Sublist" "HOL-Library.Extended_Nat"
begin

text \<open>
  A model of the serialisation layer of the brewing companion, \<^verbatim>\<open>src/lib/jsonUtils.ts\<close>:
  the formatters that turn a coffee bean and a brewing method into annotated text, the
  three text parsers, the JSON import of a method, and the dispatcher that routes a
  pasted text to one of them. Every function is translated from the source as a total
  function; what the platform supplies (\<^verbatim>\<open>JSON.parse\<close>, the clock, the random source) is a
  parameter. The claims C1 to C10 about these functions are stated and settled after
  the model.
\<close>

section \<open>JavaScript strings\<close>

text \<open>
  A JavaScript string is a sequence of UTF-16 code units. Every regular expression of
  \<^verbatim>\<open>src/lib/jsonUtils.ts\<close> is written without the \<^verbatim>\<open>u\<close> flag, so matching, \<^verbatim>\<open>trim\<close>,
  \<^verbatim>\<open>split\<close> and \<^verbatim>\<open>includes\<close> all work on code units. A code unit is modelled by its
  numeric value; ASCII literals are written with \<open>asc\<close>, the Chinese literals of the
  source as lists of code points (all in the Basic Multilingual Plane, one unit each).
\<close>

type_synonym jschar = nat
type_synonym jsstring = "nat list"

definition asc :: "string \<Rightarrow> jsstring" where
  "asc s = map of_char s"

text \<open>The character classes used by the source: \<^verbatim>\<open>\s\<close> (and \<^verbatim>\<open>trim\<close>), \<^verbatim>\<open>\d\<close>,
  \<^verbatim>\<open>.\<close> (anything but a line terminator), \<^verbatim>\<open>[^]\<close> and \<^verbatim>\<open>[a-zA-Z0-9-]\<close>.\<close>

datatype cls = Space | Digit | Dot | Any | IdChar

definition is_ws :: "jschar \<Rightarrow> bool" where
  "is_ws c \<longleftrightarrow>
     c = 9 \<or> c = 10 \<or> c = 11 \<or> c = 12 \<or> c = 13 \<or> c = 32 \<or> c = 0xA0 \<or> c = 0x1680 \<or>
     (0x2000 \<le> c \<and> c \<le> 0x200A) \<or> c = 0x2028 \<or> c = 0x2029 \<or> c = 0x202F \<or>
     c = 0x205F \<or> c = 0x3000 \<or> c = 0xFEFF"

definition is_digit :: "jschar \<Rightarrow> bool" where
  "is_digit c \<longleftrightarrow> 48 \<le> c \<and> c \<le> 57"

definition is_line_terminator :: "jschar \<Rightarrow> bool" where
  "is_line_terminator c \<longleftrightarrow> c = 10 \<or> c = 13 \<or> c = 0x2028 \<or> c = 0x2029"

fun in_cls :: "cls \<Rightarrow> jschar \<Rightarrow> bool" where
  "in_cls Space c = is_ws c"
| "in_cls Digit c = is_digit c"
| "in_cls Dot c = (\<not> is_line_terminator c)"
| "in_cls Any c = True"
| "in_cls IdChar c =
     ((97 \<le> c \<and> c \<le> 122) \<or> (65 \<le> c \<and> c \<le> 90) \<or> (48 \<le> c \<and> c \<le> 57) \<or> c = 45)"

text \<open>\<^verbatim>\<open>String.prototype.trim\<close>: strips white space and line terminators at both ends.\<close>

definition trim :: "jsstring \<Rightarrow> jsstring" where
  "trim s = rev (dropWhile is_ws (rev (dropWhile is_ws s)))"

text \<open>\<^verbatim>\<open>s.includes(p)\<close> and \<^verbatim>\<open>s.startsWith(p)\<close>.\<close>

fun includes_str :: "jsstring \<Rightarrow> jsstring \<Rightarrow> bool" where
  "includes_str [] p = (p = [])"
| "includes_str (x # xs) p = (prefix p (x # xs) \<or> includes_str xs p)"

definition startsWith :: "jsstring \<Rightarrow> jsstring \<Rightarrow> bool" where
  "startsWith s p = prefix p s"

text \<open>
  \<^verbatim>\<open>s.split(sep)\<close> for a non-empty separator: \<open>cut\<close> finds the first occurrence of the
  separator and returns what is before and after it; \<open>split_str\<close> repeats that on the rest.
  (With an empty separator JavaScript splits into single units; the source never does so.)
\<close>

fun cut :: "jsstring \<Rightarrow> jsstring \<Rightarrow> (jsstring \<times> jsstring) option" where
  "cut sep [] = (if sep = [] then Some ([], []) else None)"
| "cut sep (x # xs) =
     (if prefix sep (x # xs) then Some ([], drop (length sep) (x # xs))
      else (case cut sep xs of None \<Rightarrow> None | Some (b, a) \<Rightarrow> Some (x # b, a)))"

lemma cut_length: "cut sep s = Some (b, a) \<Longrightarrow> sep \<noteq> [] \<Longrightarrow> length a < length s"
proof (induction s arbitrary: b)
  case Nil
  then show ?case by simp
next
  case (Cons x xs)
  show ?case
  proof (cases "prefix sep (x # xs)")
    case True
    with Cons.prems show ?thesis by (cases sep) auto
  next
    case False
    with Cons.prems obtain b' where "cut sep xs = Some (b', a)"
      by (auto split: option.splits)
    with Cons.IH Cons.prems(2) show ?thesis by fastforce
  qed
qed

function split_str :: "jsstring \<Rightarrow> jsstring \<Rightarrow> jsstring list" where
  "split_str sep s =
     (if sep = [] then map (\<lambda>c. [c]) s
      else (case cut sep s of None \<Rightarrow> [s] | Some (b, a) \<Rightarrow> b # split_str sep a))"
  by pat_completeness auto
termination
  by (relation "measure (\<lambda>(sep, s). length s)") (auto dest: cut_length)

declare split_str.simps [simp del]

text \<open>\<^verbatim>\<open>xs.join(sep)\<close>.\<close>

fun join :: "jsstring \<Rightarrow> jsstring list \<Rightarrow> jsstring" where
  "join sep [] = []"
| "join sep [x] = x"
| "join sep (x # y # ys) = x @ sep @ join sep (y # ys)"

text \<open>
  Numbers. A JavaScript number is a double. The formatters render the numbers of their
  input; the model covers the integers there, and \<open>dec\<close> is the decimal rendering of a
  template literal (exact for integers below \<open>10\<^sup>2\<^sup>1\<close> in absolute value, where JavaScript
  switches to exponent notation).
\<close>

fun dec :: "nat \<Rightarrow> jsstring" where
  "dec n = (if n < 10 then [48 + n] else dec (n div 10) @ [48 + n mod 10])"

declare dec.simps [simp del]

definition show_int :: "int \<Rightarrow> jsstring" where
  "show_int i = (if i < 0 then 45 # dec (nat (- i)) else dec (nat i))"

text \<open>
  The parsers make their numbers with \<^verbatim>\<open>parseInt\<close> on a string of decimal digits, which is
  all the source ever passes to it. The result is the double nearest to the number the
  digits denote, the even significand winning a tie, and \<^verbatim>\<open>Infinity\<close> from
  \<open>2\<^sup>1\<^sup>0\<^sup>2\<^sup>4 - 2\<^sup>9\<^sup>7\<^sup>0\<close> on: a natural number or infinity, a value of \<^typ>\<open>enat\<close>.
  \<open>digits_value\<close> is the number the digits denote and \<open>to_double\<close> the rounding of a natural
  number to a double: nothing changes below \<open>2\<^sup>5\<^sup>3\<close>; from there on the significand keeps
  its 53 leading bits, \<open>e\<close> being the number of bits dropped. (ECMAScript allows an engine
  to read the digits after the twentieth as zeros; the model reads them all.)
\<close>

definition digits_value :: "jsstring \<Rightarrow> nat" where
  "digits_value ds = foldl (\<lambda>a c. 10 * a + (c - 48)) 0 ds"

fun bit_length :: "nat \<Rightarrow> nat" where
  "bit_length n = (if n = 0 then 0 else Suc (bit_length (n div 2)))"

declare bit_length.simps [simp del]

definition to_double :: "nat \<Rightarrow> enat" where
  "to_double n =
     (if n < 2 ^ 53 then enat n
      else
        (let e = bit_length n - 53;
             q = n div 2 ^ e;
             r = n mod 2 ^ e;
             q' = (if 2 ^ e < 2 * r \<or> (2 * r = 2 ^ e \<and> odd q) then q + 1 else q)
         in if 2 ^ 1024 \<le> q' * 2 ^ e then \<infinity> else enat (q' * 2 ^ e)))"

definition parseInt :: "jsstring \<Rightarrow> enat" where
  "parseInt ds = to_double (digits_value ds)"

text \<open>
  The arithmetic the parsers do on these numbers: the product of a number and a finite
  factor other than zero, the sum of two numbers (each the exact result, rounded; an
  infinite operand gives infinity), and \<^verbatim>\<open>Math.ceil(t * 0.25)\<close>, where neither the product
  by a power of two nor the rounding up to an integer loses anything.
\<close>

definition dbl_times :: "enat \<Rightarrow> nat \<Rightarrow> enat" where
  "dbl_times a k = (case a of enat x \<Rightarrow> to_double (x * k) | \<infinity> \<Rightarrow> \<infinity>)"

definition dbl_plus :: "enat \<Rightarrow> enat \<Rightarrow> enat" where
  "dbl_plus a b =
     (case a of
        enat x \<Rightarrow> (case b of enat y \<Rightarrow> to_double (x + y) | \<infinity> \<Rightarrow> \<infinity>)
      | \<infinity> \<Rightarrow> \<infinity>)"

definition ceil_quarter :: "enat \<Rightarrow> enat" where
  "ceil_quarter t = (case t of enat n \<Rightarrow> enat (nat \<lceil>real n * 0.25\<rceil>) | \<infinity> \<Rightarrow> \<infinity>)"

section \<open>Regular expressions\<close>

text \<open>
  The regular expressions of the source are sequences of literals, quantified character
  classes (greedy \<^verbatim>\<open>*\<close> and \<^verbatim>\<open>+\<close>, lazy \<^verbatim>\<open>*?\<close>) and the group \<^verbatim>\<open>(?:\n|$)\<close>. They are
  matched as JavaScript matches them, by backtracking in priority order: a greedy
  quantifier first tries to take one more unit, a lazy one first tries to stop. The
  matcher is written in continuation-passing style and returns the text consumed by
  each atom, in order, so that a capture group is read off as the chunk of its atom.
  A match has one chunk for each atom of its pattern (\<open>search_length\<close> below), so where
  a definition reads the chunks by a list pattern, the other branch is the branch of no
  match.
\<close>

datatype atom = Lit jsstring | Star cls | Plus cls | LazyStar cls | NlOrEnd

fun greedy_star :: "cls \<Rightarrow> (jsstring \<Rightarrow> 'a option) \<Rightarrow> jsstring \<Rightarrow> (jsstring \<times> 'a) option" where
  "greedy_star c k [] = map_option (Pair []) (k [])"
| "greedy_star c k (x # xs) =
     (if in_cls c x then
        (case greedy_star c k xs of
           Some (m, r) \<Rightarrow> Some (x # m, r)
         | None \<Rightarrow> map_option (Pair []) (k (x # xs)))
      else map_option (Pair []) (k (x # xs)))"

fun lazy_star :: "cls \<Rightarrow> (jsstring \<Rightarrow> 'a option) \<Rightarrow> jsstring \<Rightarrow> (jsstring \<times> 'a) option" where
  "lazy_star c k [] = map_option (Pair []) (k [])"
| "lazy_star c k (x # xs) =
     (case k (x # xs) of
        Some r \<Rightarrow> Some ([], r)
      | None \<Rightarrow>
          (if in_cls c x then
             (case lazy_star c k xs of Some (m, r) \<Rightarrow> Some (x # m, r) | None \<Rightarrow> None)
           else None))"

fun greedy_plus :: "cls \<Rightarrow> (jsstring \<Rightarrow> 'a option) \<Rightarrow> jsstring \<Rightarrow> (jsstring \<times> 'a) option" where
  "greedy_plus c k [] = None"
| "greedy_plus c k (x # xs) =
     (if in_cls c x then
        (case greedy_star c k xs of Some (m, r) \<Rightarrow> Some (x # m, r) | None \<Rightarrow> None)
      else None)"

fun match_atom ::
  "atom \<Rightarrow> (jsstring \<Rightarrow> jsstring list option) \<Rightarrow> jsstring \<Rightarrow> jsstring list option" where
  "match_atom (Lit l) k s =
     (if prefix l s then map_option ((#) l) (k (drop (length l) s)) else None)"
| "match_atom (Star c) k s = map_option (\<lambda>(m, r). m # r) (greedy_star c k s)"
| "match_atom (Plus c) k s = map_option (\<lambda>(m, r). m # r) (greedy_plus c k s)"
| "match_atom (LazyStar c) k s = map_option (\<lambda>(m, r). m # r) (lazy_star c k s)"
| "match_atom NlOrEnd k s =
     (case s of
        [] \<Rightarrow> map_option ((#) []) (k [])
      | x # xs \<Rightarrow> if x = 10 then map_option ((#) [10]) (k xs) else None)"

text \<open>\<open>matchAt r s\<close>: the regular expression \<open>r\<close> matched at the start of \<open>s\<close>.\<close>

primrec matchAt :: "atom list \<Rightarrow> jsstring \<Rightarrow> jsstring list option" where
  "matchAt [] = (\<lambda>s. Some [])"
| "matchAt (a # as) = match_atom a (matchAt as)"

text \<open>\<^verbatim>\<open>s.match(r)\<close> without the \<^verbatim>\<open>g\<close> flag: the match at the first position that has one.\<close>

fun search :: "atom list \<Rightarrow> jsstring \<Rightarrow> jsstring list option" where
  "search r [] = matchAt r []"
| "search r (x # xs) =
     (case matchAt r (x # xs) of Some m \<Rightarrow> Some m | None \<Rightarrow> search r xs)"

text \<open>
  \<^verbatim>\<open>s.match(r)\<close> with the \<^verbatim>\<open>g\<close> flag: the matched texts, left to right, each search
  resuming where the last match ended (one unit further after an empty match). \<open>k\<close>
  counts the units still covered by the last match.
\<close>

fun matchAll :: "atom list \<Rightarrow> nat \<Rightarrow> jsstring \<Rightarrow> jsstring list" where
  "matchAll r k [] =
     (if k = 0 then (case matchAt r [] of Some m \<Rightarrow> [concat m] | None \<Rightarrow> []) else [])"
| "matchAll r k (x # xs) =
     (if 0 < k then matchAll r (k - 1) xs
      else (case matchAt r (x # xs) of
              None \<Rightarrow> matchAll r 0 xs
            | Some m \<Rightarrow> concat m # matchAll r (length (concat m) - 1) xs))"

section \<open>Coffee beans as text\<close>

text \<open>
  The fields of a coffee bean that \<^verbatim>\<open>beanToReadableText\<close> reads and
  \<^verbatim>\<open>parseCoffeeBeanText\<close> writes (\<^verbatim>\<open>src/app/types.ts\<close>, \<^verbatim>\<open>CoffeeBean\<close>). An optional
  field is an \<open>option\<close>: \<open>None\<close> is \<^verbatim>\<open>undefined\<close>. The percentage of a blend component
  is a number, and the type of numbers is the parameter \<open>'n\<close> of the records: the
  formatter is modelled on the integers, the parser returns what \<^verbatim>\<open>parseInt\<close> gives.
\<close>

record 'n blend_component =
  comp_name :: jsstring
  percentage :: 'n
  comp_origin :: "jsstring option"
  comp_process :: "jsstring option"
  comp_variety :: "jsstring option"

record 'n coffee_bean =
  bean_name :: jsstring
  capacity :: jsstring
  remaining :: jsstring
  roastLevel :: "jsstring option"
  roastDate :: "jsstring option"
  flavor :: "jsstring list option"
  origin :: "jsstring option"
  process :: "jsstring option"
  variety :: "jsstring option"
  price :: "jsstring option"
  bean_type :: "jsstring option"
  bean_notes :: "jsstring option"
  blendComponents :: "'n blend_component list option"

text \<open>Truthiness of an optional string: defined and not empty.\<close>

fun truthy_str :: "jsstring option \<Rightarrow> bool" where
  "truthy_str None = False"
| "truthy_str (Some s) = (s \<noteq> [])"

text \<open>The literals of the bean format, named by their meaning, with the source text
  in code points.\<close>

definition hdr_bean :: jsstring where \<comment> \<open>the header, "coffee bean" in lenticular brackets\<close>
  "hdr_bean = [0x3010, 0x5496, 0x5561, 0x8C46, 0x3011]"
definition w_capacity :: jsstring where "w_capacity = [0x5BB9, 0x91CF]"
definition w_remaining :: jsstring where "w_remaining = [0x5269, 0x4F59]"
definition w_roast :: jsstring where "w_roast = [0x70D8, 0x7119, 0x5EA6]"
definition w_roastDate :: jsstring where "w_roastDate = [0x70D8, 0x7119, 0x65E5, 0x671F]"
definition w_origin :: jsstring where "w_origin = [0x4EA7, 0x5730]"
definition w_process :: jsstring where "w_process = [0x5904, 0x7406, 0x6CD5]"
definition w_variety :: jsstring where "w_variety = [0x54C1, 0x79CD]"
definition w_type :: jsstring where "w_type = [0x7C7B, 0x578B]"
definition w_price :: jsstring where "w_price = [0x4EF7, 0x683C]"
definition w_yuan :: jsstring where "w_yuan = [0x5143]"
definition w_flavor :: jsstring where "w_flavor = [0x98CE, 0x5473, 0x6807, 0x7B7E]"
definition w_blend :: jsstring where \<comment> \<open>the blend section marker, with its colon\<close>
  "w_blend = [0x62FC, 0x914D, 0x6210, 0x5206, 0x3A]"
definition w_notes :: jsstring where "w_notes = [0x5907, 0x6CE8]"
definition w_unknown :: jsstring where \<comment> \<open>the placeholder of an absent roast level\<close>
  "w_unknown = [0x672A, 0x77E5]"
definition w_lightRoast :: jsstring where \<comment> \<open>the default roast level of the parser\<close>
  "w_lightRoast = [0x6D45, 0x5EA6, 0x70D8, 0x7119]"
definition footer_above :: jsstring where \<comment> \<open>the copy-instruction footer of beans and methods\<close>
  "footer_above = asc ''--- '' @ [0x590D, 0x5236, 0x4EE5, 0x4E0A, 0x5185, 0x5BB9, 0x53EF,
     0x5206, 0x4EAB, 0x548C, 0x5BFC, 0x5165] @ asc '' ---''"
definition marker_bean :: jsstring where "marker_bean = asc ''@DATA_TYPE:COFFEE_BEAN@''"

subsection \<open>\<^verbatim>\<open>beanToReadableText\<close>\<close>

definition opt_line :: "jsstring \<Rightarrow> jsstring option \<Rightarrow> jsstring \<Rightarrow> jsstring" where
  \<comment> \<open>\<^verbatim>\<open>if (v) text += `<label>: ${v}<unit>\n`\<close>\<close>
  "opt_line l v unit =
     (case v of
        None \<Rightarrow> []
      | Some s \<Rightarrow> if s \<noteq> [] then l @ asc '': '' @ s @ unit @ [10] else [])"

definition comp_details :: "'n blend_component \<Rightarrow> jsstring list" where
  "comp_details cmp =
     (if truthy_str (comp_origin cmp) then [the (comp_origin cmp)] else []) @
     (if truthy_str (comp_process cmp) then [the (comp_process cmp)] else []) @
     (if truthy_str (comp_variety cmp) then [the (comp_variety cmp)] else [])"

definition comp_line :: "nat \<Rightarrow> int blend_component \<Rightarrow> jsstring" where
  \<comment> \<open>the line of the component at \<open>index\<close>\<close>
  "comp_line index cmp =
     asc ''  '' @ dec (index + 1) @ asc ''. '' @ show_int (percentage cmp) @ asc ''% '' @
     join (asc '' | '') (comp_details cmp) @ [10]"

fun comp_lines :: "nat \<Rightarrow> int blend_component list \<Rightarrow> jsstring" where
  "comp_lines index [] = []"
| "comp_lines index (cmp # comps) = comp_line index cmp @ comp_lines (index + 1) comps"

definition beanToReadableText :: "int coffee_bean \<Rightarrow> jsstring" where
  "beanToReadableText bean =
     hdr_bean @ bean_name bean @ [10] @
     w_capacity @ asc '': '' @ capacity bean @ asc ''g'' @
       (if remaining bean \<noteq> capacity bean
        then asc '' ('' @ w_remaining @ remaining bean @ asc ''g)'' else []) @ [10] @
     w_roast @ asc '': '' @
       (if truthy_str (roastLevel bean) then the (roastLevel bean) else w_unknown) @ [10] @
     opt_line w_roastDate (roastDate bean) [] @
     opt_line w_origin (origin bean) [] @
     opt_line w_process (process bean) [] @
     opt_line w_variety (variety bean) [] @
     opt_line w_type (bean_type bean) [] @
     opt_line w_price (price bean) w_yuan @
     (case flavor bean of
        None \<Rightarrow> []
      | Some fs \<Rightarrow>
          if fs \<noteq> [] then w_flavor @ asc '': '' @ join (asc '', '') fs @ [10] else []) @
     (case blendComponents bean of
        None \<Rightarrow> []
      | Some comps \<Rightarrow>
          if comps \<noteq> [] then [10] @ w_blend @ [10] @ comp_lines 0 comps else []) @
     (case bean_notes bean of
        None \<Rightarrow> []
      | Some n \<Rightarrow> if n \<noteq> [] then [10] @ w_notes @ asc '': '' @ n @ [10] else []) @
     [10] @ footer_above @
     [10, 10] @ marker_bean"

subsection \<open>\<^verbatim>\<open>parseCoffeeBeanText\<close>\<close>

text \<open>
  The regular expressions of the parser. \<open>re_line l\<close> is \<^verbatim>\<open>/<l>(.*?)(?:\n|$)/\<close>,
  \<open>re_field l\<close> is \<^verbatim>\<open>/<l>:\s*(.*?)(?:\n|$)/\<close>; \<open>group_line\<close> and \<open>group_field\<close> give
  capture group 1 of the first match, \<open>None\<close> when there is no match.
\<close>

definition re_line :: "jsstring \<Rightarrow> atom list" where
  "re_line l = [Lit l, LazyStar Dot, NlOrEnd]"

definition re_field :: "jsstring \<Rightarrow> atom list" where
  "re_field l = [Lit (l @ asc '':''), Star Space, LazyStar Dot, NlOrEnd]"

definition group_line :: "jsstring \<Rightarrow> jsstring \<Rightarrow> jsstring option" where
  "group_line l text =
     (case search (re_line l) text of Some [_, v, _] \<Rightarrow> Some v | _ \<Rightarrow> None)"

definition group_field :: "jsstring \<Rightarrow> jsstring \<Rightarrow> jsstring option" where
  "group_field l text =
     (case search (re_field l) text of Some [_, _, v, _] \<Rightarrow> Some v | _ \<Rightarrow> None)"

definition re_capacity :: "atom list" where \<comment> \<open>\<^verbatim>\<open>/<capacity>:\s*(\d+)g/\<close>\<close>
  "re_capacity = [Lit (w_capacity @ asc '':''), Star Space, Plus Digit, Lit (asc ''g'')]"

definition re_remaining :: "atom list" where \<comment> \<open>\<^verbatim>\<open>/<remaining>(\d+)g/\<close>\<close>
  "re_remaining = [Lit w_remaining, Plus Digit, Lit (asc ''g'')]"

definition re_price :: "atom list" where \<comment> \<open>\<^verbatim>\<open>/<price>:\s*(\d+)<yuan>/\<close>\<close>
  "re_price = [Lit (w_price @ asc '':''), Star Space, Plus Digit, Lit w_yuan]"

definition re_component :: "atom list" where \<comment> \<open>\<^verbatim>\<open>/\d+\.\s*(.*?)\s*\((\d+)%\)/\<close>\<close>
  "re_component =
     [Plus Digit, Lit (asc ''.''), Star Space, LazyStar Dot, Star Space, Lit (asc ''(''),
      Plus Digit, Lit (asc ''%)'')]"

text \<open>
  \<^verbatim>\<open>s.split(sep)[0]\<close> and \<^verbatim>\<open>s.split(sep)[1]\<close>. The source reads the second piece only
  under the guard \<^verbatim>\<open>s.includes(sep)\<close>, where it exists (\<open>second_piece_defined\<close> below).
\<close>

definition first_piece :: "jsstring \<Rightarrow> jsstring \<Rightarrow> jsstring" where
  "first_piece sep s = (case split_str sep s of p # _ \<Rightarrow> p | [] \<Rightarrow> [])"

definition second_piece :: "jsstring \<Rightarrow> jsstring \<Rightarrow> jsstring" where
  "second_piece sep s = (case split_str sep s of _ # p # _ \<Rightarrow> p | _ \<Rightarrow> [])"

definition optional_field :: "jsstring \<Rightarrow> jsstring \<Rightarrow> jsstring option" where
  \<comment> \<open>\<^verbatim>\<open>if (m && m[1]) bean.f = m[1].trim()\<close>, the field staying undefined otherwise\<close>
  "optional_field l text =
     (case group_field l text of
        Some v \<Rightarrow> if v \<noteq> [] then Some (trim v) else None
      | None \<Rightarrow> None)"

definition parse_bean_name :: "jsstring \<Rightarrow> jsstring" where
  "parse_bean_name text =
     (case group_line hdr_bean text of
        Some v \<Rightarrow> if v \<noteq> [] then trim v else []
      | None \<Rightarrow> [])"

definition parse_capacity :: "jsstring \<Rightarrow> jsstring" where
  "parse_capacity text =
     (case search re_capacity text of Some [_, _, d, _] \<Rightarrow> d | _ \<Rightarrow> [])"

definition parse_remaining :: "jsstring \<Rightarrow> jsstring" where
  "parse_remaining text =
     (case search re_remaining text of
        Some [_, d, _] \<Rightarrow> d
      | _ \<Rightarrow> parse_capacity text)"

definition parse_roastLevel :: "jsstring \<Rightarrow> jsstring" where
  "parse_roastLevel text =
     (case group_field w_roast text of
        Some v \<Rightarrow> if v \<noteq> [] \<and> v \<noteq> w_unknown then trim v else w_lightRoast
      | None \<Rightarrow> w_lightRoast)"

definition parse_price :: "jsstring \<Rightarrow> jsstring option" where
  "parse_price text =
     (case search re_price text of Some [_, _, d, _] \<Rightarrow> Some d | _ \<Rightarrow> None)"

definition parse_flavor :: "jsstring \<Rightarrow> jsstring list" where
  "parse_flavor text =
     (case group_field w_flavor text of
        Some v \<Rightarrow> if v \<noteq> [] then map trim (split_str (asc '','') v) else []
      | None \<Rightarrow> [])"

definition parse_component :: "jsstring \<Rightarrow> enat blend_component list" where
  \<comment> \<open>the body of the \<^verbatim>\<open>forEach\<close>: what one matched text pushes\<close>
  "parse_component cmp =
     (case search re_component cmp of
        Some [_, _, _, n, _, _, p, _] \<Rightarrow>
          if n \<noteq> [] \<and> p \<noteq> [] then
            [\<lparr>comp_name = trim n, percentage = parseInt p,
              comp_origin = None, comp_process = None, comp_variety = None\<rparr>]
          else []
      | _ \<Rightarrow> [])"

definition blendSection :: "jsstring \<Rightarrow> jsstring" where
  "blendSection text = first_piece (asc ''\<newline>---'') (second_piece w_blend text)"

definition parse_blendComponents :: "jsstring \<Rightarrow> enat blend_component list option" where
  "parse_blendComponents text =
     (if includes_str text w_blend
      then Some (concat (map parse_component (matchAll re_component 0 (blendSection text))))
      else None)"

definition parseCoffeeBeanText :: "jsstring \<Rightarrow> enat coffee_bean" where
  "parseCoffeeBeanText text =
     \<lparr>bean_name = parse_bean_name text,
      capacity = parse_capacity text,
      remaining = parse_remaining text,
      roastLevel = Some (parse_roastLevel text),
      roastDate = optional_field w_roastDate text,
      flavor = Some (parse_flavor text),
      origin = optional_field w_origin text,
      process = optional_field w_process text,
      variety = optional_field w_variety text,
      price = parse_price text,
      bean_type = optional_field w_type text,
      bean_notes = optional_field w_notes text,
      blendComponents = parse_blendComponents text\<rparr>"

section \<open>Brewing methods as text\<close>

text \<open>
  A brewing method as the text functions see it (the \<^verbatim>\<open>Method\<close> and \<^verbatim>\<open>Stage\<close> types of
  \<^verbatim>\<open>@/lib/config\<close>, with the fields named in the specification). Times are numbers, of
  the type \<open>'n\<close>: the formatter is modelled on the integers, the parser returns the doubles
  its arithmetic gives. A pour time of 0 and an empty pour type are the falsy
  values, which the formatter treats like absent ones. The valve status of a stage is
  neither written by the formatter nor set by the parser and is left out. The five
  scalar parameters are shared with brewing notes.
\<close>

record 'n stage =
  time :: 'n
  pourTime :: 'n
  label :: jsstring
  stage_water :: jsstring
  detail :: jsstring
  pourType :: jsstring

record brew_params =
  coffee :: jsstring
  water :: jsstring
  ratio :: jsstring
  grindSize :: jsstring
  temp :: jsstring

record 'n method_params = brew_params +
  videoUrl :: jsstring
  stages :: "'n stage list"

record 'n brewing_method =
  method_id :: jsstring
  method_name :: jsstring
  params :: "'n method_params"

definition hdr_method :: jsstring where \<comment> \<open>the header, "brewing method" in lenticular brackets\<close>
  "hdr_method = [0x3010, 0x51B2, 0x716E, 0x65B9, 0x6848, 0x3011]"
definition w_unset :: jsstring where \<comment> \<open>the placeholder of an empty parameter, "not set"\<close>
  "w_unset = [0x672A, 0x8BBE, 0x7F6E]"
definition w_coffee :: jsstring where "w_coffee = [0x5496, 0x5561, 0x7C89, 0x91CF]"
definition w_water :: jsstring where "w_water = [0x6C34, 0x91CF]"
definition w_ratio :: jsstring where "w_ratio = [0x6BD4, 0x4F8B]"
definition w_grind :: jsstring where "w_grind = [0x7814, 0x78E8, 0x5EA6]"
definition w_temp :: jsstring where "w_temp = [0x6C34, 0x6E29]"
definition w_steps :: jsstring where \<comment> \<open>the step list marker, with its colon\<close>
  "w_steps = [0x51B2, 0x716E, 0x6B65, 0x9AA4, 0x3A]"
definition w_minutes :: jsstring where "w_minutes = [0x5206]"
definition w_seconds :: jsstring where "w_seconds = [0x79D2]"
definition w_pour :: jsstring where "w_pour = [0x6CE8, 0x6C34]"
definition w_pour_center :: jsstring where "w_pour_center = [0x4E2D, 0x5FC3, 0x6CE8, 0x6C34]"
definition w_pour_circle :: jsstring where "w_pour_circle = [0x7ED5, 0x5708, 0x6CE8, 0x6C34]"
definition w_pour_ice :: jsstring where "w_pour_ice = [0x51B0, 0x5757, 0x6CE8, 0x6C34]"
definition w_pour_other :: jsstring where "w_pour_other = [0x5176, 0x4ED6, 0x65B9, 0x5F0F]"
definition kw_center :: jsstring where "kw_center = [0x4E2D, 0x5FC3]"
definition kw_centre :: jsstring where "kw_centre = [0x4E2D, 0x592E]"
definition kw_ice_cube :: jsstring where "kw_ice_cube = [0x51B0, 0x5757]"
definition kw_ice :: jsstring where "kw_ice = [0x51B0]"
definition marker_method :: jsstring where
  "marker_method = asc ''@DATA_TYPE:BREWING_METHOD@''"

subsection \<open>\<^verbatim>\<open>methodToReadableText\<close>\<close>

definition getPourTypeText :: "jsstring \<Rightarrow> jsstring" where
  "getPourTypeText p =
     (if p = asc ''center'' then w_pour_center
      else if p = asc ''circle'' then w_pour_circle
      else if p = asc ''ice'' then w_pour_ice
      else if p = asc ''other'' then w_pour_other
      else w_pour_circle)"

text \<open>The remainder operator \<^verbatim>\<open>%\<close> truncates towards zero: the sign is the dividend's.\<close>

definition js_rem :: "int \<Rightarrow> int \<Rightarrow> int" where
  "js_rem a b = (if a < 0 then - ((- a) mod b) else a mod b)"

definition param_line :: "jsstring \<Rightarrow> jsstring \<Rightarrow> jsstring" where
  \<comment> \<open>\<^verbatim>\<open>`<label>: ${v || "<not set>"}\n`\<close>\<close>
  "param_line l v = l @ asc '': '' @ (if v \<noteq> [] then v else w_unset) @ [10]"

definition timeText :: "int stage \<Rightarrow> jsstring" where
  "timeText st =
     show_int (time st div 60) @ w_minutes @ show_int (js_rem (time st) 60) @ w_seconds"

definition pourTimeText :: "int stage \<Rightarrow> jsstring" where
  "pourTimeText st =
     (if pourTime st \<noteq> 0
      then asc '' ('' @ w_pour @ show_int (pourTime st) @ w_seconds @ asc '')'' else [])"

definition pourTypeText :: "'n stage \<Rightarrow> jsstring" where
  "pourTypeText st =
     (if pourType st \<noteq> [] then asc '' ['' @ getPourTypeText (pourType st) @ asc '']'' else [])"

definition stage_text :: "nat \<Rightarrow> int stage \<Rightarrow> jsstring" where
  \<comment> \<open>what the \<^verbatim>\<open>forEach\<close> appends for the stage at \<open>index\<close>\<close>
  "stage_text index st =
     dec (index + 1) @ asc ''. ['' @ timeText st @ asc '']'' @ pourTimeText st @
     pourTypeText st @ asc '' '' @ label st @ asc '' - '' @ stage_water st @ [10] @
     (if detail st \<noteq> [] then asc ''   '' @ detail st @ [10] else []) @
     [10]"

fun stages_text :: "nat \<Rightarrow> int stage list \<Rightarrow> jsstring" where
  "stages_text index [] = []"
| "stages_text index (st # sts) = stage_text index st @ stages_text (index + 1) sts"

definition methodToReadableText :: "int brewing_method \<Rightarrow> jsstring" where
  "methodToReadableText m =
     hdr_method @ method_name m @ [10, 10] @
     param_line w_coffee (coffee (params m)) @
     param_line w_water (water (params m)) @
     param_line w_ratio (ratio (params m)) @
     param_line w_grind (grindSize (params m)) @
     param_line w_temp (temp (params m)) @
     (if stages (params m) \<noteq> []
      then [10] @ w_steps @ [10, 10] @ stages_text 0 (stages (params m)) else []) @
     footer_above @
     [10, 10] @ marker_method"

subsection \<open>\<^verbatim>\<open>parseMethodText\<close>\<close>

definition re_method_id :: "atom list" where \<comment> \<open>\<^verbatim>\<open>/@METHOD_ID:(method-[a-zA-Z0-9-]+)@/\<close>\<close>
  "re_method_id =
     [Lit (asc ''@METHOD_ID:''), Lit (asc ''method-''), Plus IdChar, Lit (asc ''@'')]"

definition re_stage_header :: "atom list" where \<comment> \<open>\<^verbatim>\<open>/^\d+\.\s*\[.*?\]/\<close>, tried at the start only\<close>
  "re_stage_header =
     [Plus Digit, Lit (asc ''.''), Star Space, Lit (asc ''[''), LazyStar Dot, Lit (asc '']'')]"

definition re_stage :: "atom list" where
  \<comment> \<open>\<^verbatim>\<open>/\d+\.\s*\[(\d+)<min>(\d+)<sec>\]\s*(.*?)\s*-\s*(.*?)(?:\n|$)/\<close>\<close>
  "re_stage =
     [Plus Digit, Lit (asc ''.''), Star Space, Lit (asc ''[''), Plus Digit, Lit w_minutes,
      Plus Digit, Lit (w_seconds @ asc '']''), Star Space, LazyStar Dot, Star Space,
      Lit (asc ''-''), Star Space, LazyStar Dot, NlOrEnd]"

definition parse_method_name :: "jsstring \<Rightarrow> jsstring" where
  "parse_method_name text =
     (case group_line hdr_method text of
        Some v \<Rightarrow> if v \<noteq> [] then trim v else []
      | None \<Rightarrow> [])"

definition parse_param :: "jsstring \<Rightarrow> jsstring \<Rightarrow> jsstring" where
  \<comment> \<open>\<^verbatim>\<open>if (m && m[1] && m[1] !== "<not set>") p = m[1].trim()\<close>, from the default \<^verbatim>\<open>""\<close>\<close>
  "parse_param l text =
     (case group_field l text of
        Some v \<Rightarrow> if v \<noteq> [] \<and> v \<noteq> w_unset then trim v else []
      | None \<Rightarrow> [])"

definition parse_method_id :: "nat \<Rightarrow> jsstring \<Rightarrow> jsstring" where
  \<comment> \<open>\<open>now\<close> is the value of \<^verbatim>\<open>Date.now()\<close>\<close>
  "parse_method_id now text =
     (case search re_method_id text of
        Some [_, p, i, _] \<Rightarrow> p @ i
      | _ \<Rightarrow> asc ''method-'' @ dec now)"

text \<open>
  The header of a step: minutes, seconds, label and water of the first match of the
  step pattern in a line that passes the header test.
\<close>

definition stage_header :: "jsstring \<Rightarrow> (enat \<times> enat \<times> jsstring \<times> jsstring) option" where
  "stage_header line =
     (if matchAt re_stage_header line \<noteq> None then
        (case search re_stage line of
           Some [_, _, _, _, mi, _, se, _, _, l, _, _, _, w, _] \<Rightarrow>
             Some (parseInt mi, parseInt se, trim l, trim w)
         | _ \<Rightarrow> None)
      else None)"

definition infer_detail :: "jsstring \<Rightarrow> jsstring" where
  \<comment> \<open>the pour type after the look at the detail line\<close>
  "infer_detail d =
     (if includes_str d kw_center \<or> includes_str d kw_centre then asc ''center''
      else if includes_str d kw_ice_cube \<or> includes_str d kw_ice then asc ''ice''
      else asc ''circle'')"

definition infer_label :: "jsstring \<Rightarrow> jsstring \<Rightarrow> jsstring" where
  \<comment> \<open>the pour type after the look at the label, which counts only if it still is the default\<close>
  "infer_label p l =
     (if p = asc ''circle'' then
        (if includes_str l kw_center then asc ''center''
         else if includes_str l kw_ice_cube \<or> includes_str l kw_ice then asc ''ice''
         else p)
      else p)"

definition detail_line :: "jsstring list \<Rightarrow> jsstring option" where
  \<comment> \<open>\<^verbatim>\<open>i + 1 < stageLines.length && stageLines[i + 1].trim().startsWith(" ")\<close> on the
      lines after line \<open>i\<close>: the detail text \<^verbatim>\<open>stageLines[i + 1].trim()\<close> when the test holds\<close>
  "detail_line rest =
     (case rest of
        [] \<Rightarrow> None
      | next_line # _ \<Rightarrow>
          if startsWith (trim next_line) (asc '' '') then Some (trim next_line) else None)"

text \<open>
  The stage of a step: \<^verbatim>\<open>time = minutes * 60 + seconds\<close> in the arithmetic of doubles, and
  \<^verbatim>\<open>pourTime = Math.min(20, Math.ceil(time * 0.25))\<close>.
\<close>

definition make_stage ::
  "enat \<Rightarrow> enat \<Rightarrow> jsstring \<Rightarrow> jsstring \<Rightarrow> jsstring list \<Rightarrow> enat stage" where
  "make_stage minutes seconds l w rest =
     (let t = dbl_plus (dbl_times minutes 60) seconds;
          d = (case detail_line rest of Some d \<Rightarrow> d | None \<Rightarrow> []);
          p = (case detail_line rest of Some d \<Rightarrow> infer_detail d | None \<Rightarrow> asc ''circle'')
      in \<lparr>time = t,
          pourTime = min 20 (ceil_quarter t),
          label = l,
          stage_water = w,
          detail = d,
          pourType = infer_label p l\<rparr>)"

text \<open>The loop over the step lines, as a function of the lines from index \<open>i\<close> on: a
  consumed detail line is skipped (\<^verbatim>\<open>i++\<close>).\<close>

fun parse_stage_lines :: "jsstring list \<Rightarrow> enat stage list" where
  "parse_stage_lines [] = []"
| "parse_stage_lines (line # rest) =
     (case stage_header line of
        None \<Rightarrow> parse_stage_lines rest
      | Some (minutes, seconds, l, w) \<Rightarrow>
          make_stage minutes seconds l w rest #
          parse_stage_lines (if detail_line rest \<noteq> None then tl rest else rest))"

definition stageLines :: "jsstring \<Rightarrow> jsstring list" where
  "stageLines text =
     filter (\<lambda>line. trim line \<noteq> [])
       (split_str [10] (first_piece (asc ''\<newline>---'') (second_piece w_steps text)))"

definition parse_stages :: "jsstring \<Rightarrow> enat stage list" where
  "parse_stages text =
     (if includes_str text w_steps then parse_stage_lines (stageLines text) else [])"

definition parseMethodText :: "nat \<Rightarrow> jsstring \<Rightarrow> enat brewing_method" where
  "parseMethodText now text =
     \<lparr>method_id = parse_method_id now text,
      method_name = parse_method_name text,
      params =
        \<lparr>coffee = parse_param w_coffee text,
         water = parse_param w_water text,
         ratio = parse_param w_ratio text,
         grindSize = parse_param w_grind text,
         temp = parse_param w_temp text,
         videoUrl = [],
         stages = parse_stages text\<rparr>\<rparr>"

section \<open>Brewing methods from JSON\<close>

text \<open>
  The values \<^verbatim>\<open>JSON.parse\<close> returns. A number is a double; the code only tests numbers
  for truthiness and passes them on, so they are modelled as reals (an overflowing
  literal, which parses to an infinity, behaves as any other non-zero number here).
  \<^verbatim>\<open>undefined\<close>, which JSON cannot hold but a property read can give, is \<open>None\<close> of
  \<open>json option\<close>.
\<close>

datatype json =
  JNull | JBool bool | JNum real | JStr jsstring | JArr "json list"
  | JObj "(jsstring \<times> json) list"

text \<open>
  What the platform supplies: \<^verbatim>\<open>JSON.parse\<close> (\<open>None\<close> when it throws a syntax error), the
  rendering of a number in a template literal, the clock \<^verbatim>\<open>Date.now()\<close> and the text
  \<^verbatim>\<open>Math.random().toString(36)\<close>.
\<close>

record platform =
  JSON_parse :: "jsstring \<Rightarrow> json option"
  Number_toString :: "real \<Rightarrow> jsstring"
  Date_now :: nat
  Math_random_36 :: jsstring

text \<open>
  \<open>get v k\<close> is the property read \<^verbatim>\<open>v.k\<close> on a value other than \<^verbatim>\<open>null\<close> (where it throws a
  \<^verbatim>\<open>TypeError\<close>, which the callers below test first), for the keys the source reads: none
  of them is a property of a string, a number, a boolean or an array. \<open>get_opt v k\<close> is
  \<^verbatim>\<open>v?.k\<close>.
\<close>

fun get :: "json \<Rightarrow> jsstring \<Rightarrow> json option" where
  "get (JObj kvs) k = map_of kvs k"
| "get _ k = None"

fun get_opt :: "json option \<Rightarrow> jsstring \<Rightarrow> json option" where
  "get_opt None k = None"
| "get_opt (Some JNull) k = None"
| "get_opt (Some v) k = get v k"

fun truthy :: "json option \<Rightarrow> bool" where
  "truthy None = False"
| "truthy (Some JNull) = False"
| "truthy (Some (JBool b)) = b"
| "truthy (Some (JNum x)) = (x \<noteq> 0)"
| "truthy (Some (JStr s)) = (s \<noteq> [])"
| "truthy (Some (JArr xs)) = True"
| "truthy (Some (JObj kvs)) = True"

definition or_else :: "json option \<Rightarrow> json \<Rightarrow> json" where \<comment> \<open>\<^verbatim>\<open>v || d\<close>\<close>
  "or_else v d = (case v of None \<Rightarrow> d | Some x \<Rightarrow> if truthy (Some x) then x else d)"

text \<open>
  The string of a value in a template literal; \<open>None\<close> is the \<^verbatim>\<open>TypeError\<close> of a value that
  cannot be converted. An object is converted by its \<^verbatim>\<open>toString\<close>: that of
  \<^verbatim>\<open>Object.prototype\<close>, unless the object has an entry of that name, which (coming from
  JSON) is no function, so that the conversion goes on to \<^verbatim>\<open>valueOf\<close>, gets no primitive
  value and throws. An array is converted by joining the strings of its entries, \<^verbatim>\<open>null\<close>
  counting as the empty string.
\<close>

fun to_string :: "(real \<Rightarrow> jsstring) \<Rightarrow> json \<Rightarrow> jsstring option" where
  "to_string num JNull = Some (asc ''null'')"
| "to_string num (JBool b) = Some (if b then asc ''true'' else asc ''false'')"
| "to_string num (JNum x) = Some (num x)"
| "to_string num (JStr s) = Some s"
| "to_string num (JArr xs) =
     map_option (join (asc '',''))
       (those (map (\<lambda>x. if x = JNull then Some [] else to_string num x) xs))"
| "to_string num (JObj kvs) =
     (if map_of kvs (asc ''toString'') \<noteq> None then None else Some (asc ''[object Object]''))"

text \<open>
  The method \<^verbatim>\<open>parseMethodFromJson\<close> returns. Its declared type is \<^verbatim>\<open>Method\<close>, but the values
  of the input are passed on unchecked, so the fields hold JSON values.
\<close>

record jstage =
  j_time :: json
  j_pourTime :: json
  j_label :: json
  j_water :: json
  j_detail :: json
  j_pourType :: json
  j_valveStatus :: json

record jmethod =
  j_id :: jsstring
  j_name :: json
  j_coffee :: json
  j_params_water :: json
  j_ratio :: json
  j_grindSize :: json
  j_temp :: json
  j_videoUrl :: json
  j_stages :: "jstage list"

definition w_optimized :: jsstring where \<comment> \<open>the suffix of a name made from the equipment\<close>
  "w_optimized = [0x4F18, 0x5316, 0x65B9, 0x6848]"
definition w_mediumFine :: jsstring where \<comment> \<open>the default grind size\<close>
  "w_mediumFine = [0x4E2D, 0x7EC6]"
definition w_92C :: jsstring where \<comment> \<open>the default temperature, 92 degrees Celsius\<close>
  "w_92C = asc ''92'' @ [0xB0] @ asc ''C''"

definition fresh_id :: "platform \<Rightarrow> jsstring" where
  \<comment> \<open>\<^verbatim>\<open>`${Date.now()}-${Math.random().toString(36).substr(2, 9)}`\<close>\<close>
  "fresh_id pf = dec (Date_now pf) @ asc ''-'' @ take 9 (drop 2 (Math_random_36 pf))"

definition norm_pourType :: "json option \<Rightarrow> json" where
  "norm_pourType v =
     (let p = or_else v (JStr (asc ''circle'')) in
      if p \<notin> set [JStr (asc ''center''), JStr (asc ''circle''), JStr (asc ''ice''),
                    JStr (asc ''other'')]
      then (if p = JStr (asc ''spiral'') then JStr (asc ''circle'') else JStr (asc ''circle''))
      else p)"

definition norm_valveStatus :: "json option \<Rightarrow> json" where
  "norm_valveStatus v =
     (let s = or_else v (JStr []) in
      if truthy (Some s) \<and> s \<notin> set [JStr (asc ''open''), JStr (asc ''closed'')]
      then JStr []
      else s)"

text \<open>The callback of \<^verbatim>\<open>stages.map\<close>: \<open>None\<close> is the \<^verbatim>\<open>TypeError\<close> of reading a property
  of a \<^verbatim>\<open>null\<close> entry.\<close>

definition parse_stage :: "json \<Rightarrow> jstage option" where
  "parse_stage st =
     (if st = JNull then None
      else Some
        \<lparr>j_time = or_else (get st (asc ''time'')) (JNum 0),
         j_pourTime = or_else (get st (asc ''pourTime'')) (JNum 0),
         j_label = or_else (get st (asc ''label'')) (JStr []),
         j_water = or_else (get st (asc ''water'')) (JStr []),
         j_detail = or_else (get st (asc ''detail'')) (JStr []),
         j_pourType = norm_pourType (get st (asc ''pourType'')),
         j_valveStatus = norm_valveStatus (get st (asc ''valveStatus''))\<rparr>)"

fun parse_stage_list :: "json list \<Rightarrow> jstage list option" where
  "parse_stage_list [] = Some []"
| "parse_stage_list (st # sts) =
     (case parse_stage st of
        None \<Rightarrow> None
      | Some s \<Rightarrow> (case parse_stage_list sts of None \<Rightarrow> None | Some ss \<Rightarrow> Some (s # ss)))"

definition parse_json_stages :: "json option \<Rightarrow> jstage list option" where
  \<comment> \<open>the stage list after the \<^verbatim>\<open>if\<close>: the mapped array, or still the empty list\<close>
  "parse_json_stages pr =
     (case get_opt pr (asc ''stages'') of
        Some (JArr sts) \<Rightarrow> parse_stage_list sts
      | _ \<Rightarrow> Some [])"

text \<open>
  The body of the \<^verbatim>\<open>try\<close> block on the parsed value; \<open>None\<close> is an exception, which the
  \<^verbatim>\<open>catch\<close> turns into \<^verbatim>\<open>null\<close>: the \<^verbatim>\<open>TypeError\<close> of reading \<^verbatim>\<open>null.method\<close>, the two errors
  the code throws itself, a \<^verbatim>\<open>TypeError\<close> in making the name and one in the stage callback.
\<close>

definition method_name_of :: "platform \<Rightarrow> json \<Rightarrow> json option" where
  \<comment> \<open>\<^verbatim>\<open>parsedData.method || `${parsedData.equipment}<optimized>`\<close>, under the test that one
      of the two is truthy; \<open>None\<close> is the \<^verbatim>\<open>TypeError\<close> of the string conversion\<close>
  "method_name_of pf parsedData =
     (if truthy (get parsedData (asc ''method''))
      then get parsedData (asc ''method'')
      else (case to_string (Number_toString pf) (the (get parsedData (asc ''equipment''))) of
              None \<Rightarrow> None
            | Some s \<Rightarrow> Some (JStr (s @ w_optimized))))"

definition method_of_json :: "platform \<Rightarrow> json \<Rightarrow> jmethod option" where
  "method_of_json pf parsedData =
     (if parsedData = JNull then None
      else if \<not> truthy (get parsedData (asc ''method'')) \<and>
              \<not> truthy (get parsedData (asc ''equipment'')) then None
      else
        (let pr = get parsedData (asc ''params'') in
         case method_name_of pf parsedData of
           None \<Rightarrow> None
         | Some name \<Rightarrow>
             (case parse_json_stages pr of
                None \<Rightarrow> None
              | Some sts \<Rightarrow>
                  if sts = [] then None
                  else Some
                    \<lparr>j_id = fresh_id pf,
                     j_name = name,
                     j_coffee = or_else (get_opt pr (asc ''coffee'')) (JStr (asc ''15g'')),
                     j_params_water = or_else (get_opt pr (asc ''water'')) (JStr (asc ''225g'')),
                     j_ratio = or_else (get_opt pr (asc ''ratio'')) (JStr (asc ''1:15'')),
                     j_grindSize = or_else (get_opt pr (asc ''grindSize'')) (JStr w_mediumFine),
                     j_temp = or_else (get_opt pr (asc ''temp'')) (JStr w_92C),
                     j_videoUrl = or_else (get_opt pr (asc ''videoUrl'')) (JStr []),
                     j_stages = sts\<rparr>)))"

definition parseMethodFromJson :: "platform \<Rightarrow> jsstring \<Rightarrow> jmethod option" where
  "parseMethodFromJson pf jsonString =
     (case JSON_parse pf jsonString of
        None \<Rightarrow> None
      | Some parsedData \<Rightarrow> method_of_json pf parsedData)"

section \<open>Brewing notes from text\<close>

record bean_info =
  info_name :: jsstring
  info_roastLevel :: jsstring

record taste_ratings =
  acidity :: enat
  sweetness :: enat
  bitterness :: enat
  body :: enat

record brewing_note =
  note_id :: jsstring
  equipment :: jsstring
  note_method :: jsstring
  coffeeBeanInfo :: bean_info
  note_params :: brew_params
  taste :: taste_ratings
  rating :: enat
  note_text :: jsstring

definition hdr_note :: jsstring where \<comment> \<open>the header, "brewing record" in lenticular brackets\<close>
  "hdr_note = [0x3010, 0x51B2, 0x716E, 0x8BB0, 0x5F55, 0x3011]"
definition w_equipment :: jsstring where "w_equipment = [0x8BBE, 0x5907]"
definition w_method :: jsstring where "w_method = [0x65B9, 0x6CD5]"
definition w_bean :: jsstring where "w_bean = [0x5496, 0x5561, 0x8C46]"
definition w_settings :: jsstring where \<comment> \<open>the parameter block marker, with its colon\<close>
  "w_settings = [0x53C2, 0x6570, 0x8BBE, 0x7F6E, 0x3A]"
definition w_scores :: jsstring where \<comment> \<open>the taste block marker, with its colon\<close>
  "w_scores = [0x98CE, 0x5473, 0x8BC4, 0x5206, 0x3A]"
definition w_acidity :: jsstring where "w_acidity = [0x9178, 0x5EA6]"
definition w_sweetness :: jsstring where "w_sweetness = [0x751C, 0x5EA6]"
definition w_bitterness :: jsstring where "w_bitterness = [0x82E6, 0x5EA6]"
definition w_body :: jsstring where "w_body = [0x9187, 0x539A, 0x5EA6]"
definition w_rating :: jsstring where "w_rating = [0x7EFC, 0x5408, 0x8BC4, 0x5206]"
definition w_note :: jsstring where \<comment> \<open>the notes block marker, with its colon\<close>
  "w_note = [0x7B14, 0x8BB0, 0x3A]"
definition marker_note :: jsstring where "marker_note = asc ''@DATA_TYPE:BREWING_NOTE@''"

definition re_score :: "jsstring \<Rightarrow> atom list" where \<comment> \<open>\<^verbatim>\<open>/<l>:\s*(\d+)\/5/\<close>\<close>
  "re_score l = [Lit (l @ asc '':''), Star Space, Plus Digit, Lit (asc ''/5'')]"

definition parse_score :: "jsstring \<Rightarrow> jsstring \<Rightarrow> enat" where
  "parse_score l text =
     (case search (re_score l) text of Some [_, _, d, _] \<Rightarrow> parseInt d | _ \<Rightarrow> 0)"

definition parseBrewingNoteText :: "nat \<Rightarrow> jsstring \<Rightarrow> brewing_note" where
  "parseBrewingNoteText now text =
     \<lparr>note_id = asc ''note-'' @ dec now,
      equipment = parse_param w_equipment text,
      note_method = parse_param w_method text,
      coffeeBeanInfo =
        \<lparr>info_name = parse_param w_bean text, info_roastLevel = parse_param w_roast text\<rparr>,
      note_params =
        (if includes_str text w_settings then
           \<lparr>coffee = parse_param w_coffee text,
            water = parse_param w_water text,
            ratio = parse_param w_ratio text,
            grindSize = parse_param w_grind text,
            temp = parse_param w_temp text\<rparr>
         else \<lparr>coffee = [], water = [], ratio = [], grindSize = [], temp = []\<rparr>),
      taste =
        (if includes_str text w_scores then
           \<lparr>acidity = parse_score w_acidity text,
            sweetness = parse_score w_sweetness text,
            bitterness = parse_score w_bitterness text,
            body = parse_score w_body text\<rparr>
         else \<lparr>acidity = 0, sweetness = 0, bitterness = 0, body = 0\<rparr>),
      rating = parse_score w_rating text,
      note_text =
        (if includes_str text w_note
         then trim (first_piece (asc ''\<newline>---'') (second_piece w_note text)) else [])\<rparr>"

section \<open>The dispatcher\<close>

text \<open>
  What \<^verbatim>\<open>extractJsonFromText\<close> returns: \<^verbatim>\<open>null\<close>, a parsed JSON value as it is (\<open>Data JNull\<close> is
  \<^verbatim>\<open>null\<close> as well), or the record of one of the three text parsers.
\<close>

datatype extracted =
  Null | Data json | Bean "enat coffee_bean" | Method "enat brewing_method"
  | Note brewing_note

definition re_json_data :: "atom list" where \<comment> \<open>\<^verbatim>\<open>/<!--JSON_DATA:([^]*?)-->/\<close>\<close>
  "re_json_data = [Lit (asc ''<!--JSON_DATA:''), LazyStar Any, Lit (asc ''-->'')]"

definition json_block :: "jsstring \<Rightarrow> jsstring option" where
  \<comment> \<open>capture group 1 of the first match, \<open>None\<close> when there is no match\<close>
  "json_block text =
     (case search re_json_data text of Some [_, v, _] \<Rightarrow> Some v | _ \<Rightarrow> None)"

definition route_text :: "platform \<Rightarrow> jsstring \<Rightarrow> extracted" where
  \<comment> \<open>the type markers, then the section headers\<close>
  "route_text pf text =
     (if includes_str text marker_bean then Bean (parseCoffeeBeanText text)
      else if includes_str text marker_method then Method (parseMethodText (Date_now pf) text)
      else if includes_str text marker_note then Note (parseBrewingNoteText (Date_now pf) text)
      else if includes_str text hdr_bean then Bean (parseCoffeeBeanText text)
      else if includes_str text hdr_method then Method (parseMethodText (Date_now pf) text)
      else if includes_str text hdr_note then Note (parseBrewingNoteText (Date_now pf) text)
      else Null)"

definition extractJsonFromText :: "platform \<Rightarrow> jsstring \<Rightarrow> extracted" where
  "extractJsonFromText pf text =
     (case JSON_parse pf text of
        Some data \<Rightarrow> Data data
      | None \<Rightarrow>
          (case json_block text of
             Some v \<Rightarrow>
               if v \<noteq> [] then
                 (case JSON_parse pf v of Some data \<Rightarrow> Data data | None \<Rightarrow> Null)
               else route_text pf text
           | None \<Rightarrow> route_text pf text))"

section \<open>Predicates and example values used in the statements\<close>

text \<open>
  \<open>chunk_ok a c\<close>: the text \<open>c\<close> is one that the atom \<open>a\<close> can consume, the literal itself or
  units of the class.
\<close>

fun chunk_ok :: "atom \<Rightarrow> jsstring \<Rightarrow> bool" where
  "chunk_ok (Lit l) c = (c = l)"
| "chunk_ok (Star cl) c = list_all (in_cls cl) c"
| "chunk_ok (Plus cl) c = (c \<noteq> [] \<and> list_all (in_cls cl) c)"
| "chunk_ok (LazyStar cl) c = list_all (in_cls cl) c"
| "chunk_ok NlOrEnd c = (c = [] \<or> c = [10])"

text \<open>
  \<open>paren_percent s\<close>: somewhere in \<open>s\<close> an opening parenthesis is followed by one or more
  digits, a percent sign and a closing parenthesis, the text every match of the component
  pattern ends with (\<^verbatim>\<open>\((\d+)%\)\<close>). \<open>digits_percent s\<close>: \<open>s\<close> starts with digits, none or
  more, and \<^verbatim>\<open>%)\<close>. A \<open>breaker\<close> is a code unit that cannot continue a parenthesised
  percentage; \<open>plain_component\<close>: no text field of the component that the formatter writes
  holds one.
\<close>

fun digits_percent :: "jsstring \<Rightarrow> bool" where
  "digits_percent [] = False"
| "digits_percent (c # s) = (if is_digit c then digits_percent s else c = 37 \<and> prefix [41] s)"

fun after_paren :: "jsstring \<Rightarrow> bool" where
  "after_paren [] = False"
| "after_paren (d # s) = (is_digit d \<and> digits_percent s)"

fun paren_percent :: "jsstring \<Rightarrow> bool" where
  "paren_percent [] = False"
| "paren_percent (c # s) = ((c = 40 \<and> after_paren s) \<or> paren_percent s)"

definition breaker :: "jschar \<Rightarrow> bool" where
  "breaker c \<longleftrightarrow> \<not> is_digit c \<and> c \<noteq> 37 \<and> c \<noteq> 41"

fun plain_opt :: "jsstring option \<Rightarrow> bool" where
  "plain_opt None = True"
| "plain_opt (Some s) = (\<not> paren_percent s)"

definition plain_component :: "'n blend_component \<Rightarrow> bool" where
  "plain_component c \<longleftrightarrow>
     plain_opt (comp_origin c) \<and> plain_opt (comp_process c) \<and> plain_opt (comp_variety c)"

text \<open>
  The text of a bean with blend components is the head, a line feed, the marker of the
  blend section and the tail (\<open>bean_text_parts\<close> below). \<open>head_fields\<close> are the fields of the
  bean that the formatter writes into the head, before the blend section. A \<open>literal\<close>
  holds neither an opening parenthesis nor the first unit of the marker; a \<open>separator\<close> is
  a literal whose first unit is a breaker and not a unit of the marker.
\<close>

fun opt_text :: "jsstring option \<Rightarrow> jsstring list" where
  "opt_text None = []"
| "opt_text (Some s) = [s]"

definition head_fields :: "'n coffee_bean \<Rightarrow> jsstring list" where
  "head_fields bean =
     [bean_name bean, capacity bean] @
     (if remaining bean \<noteq> capacity bean then [remaining bean] else []) @
     opt_text (roastLevel bean) @ opt_text (roastDate bean) @ opt_text (origin bean) @
     opt_text (process bean) @ opt_text (variety bean) @ opt_text (bean_type bean) @
     opt_text (price bean) @
     (case flavor bean of None \<Rightarrow> [] | Some fs \<Rightarrow> fs)"

definition bean_head :: "int coffee_bean \<Rightarrow> jsstring" where
  "bean_head bean =
     hdr_bean @ bean_name bean @ [10] @
     w_capacity @ asc '': '' @ capacity bean @ asc ''g'' @
       (if remaining bean \<noteq> capacity bean
        then asc '' ('' @ w_remaining @ remaining bean @ asc ''g)'' else []) @ [10] @
     w_roast @ asc '': '' @
       (if truthy_str (roastLevel bean) then the (roastLevel bean) else w_unknown) @ [10] @
     opt_line w_roastDate (roastDate bean) [] @
     opt_line w_origin (origin bean) [] @
     opt_line w_process (process bean) [] @
     opt_line w_variety (variety bean) [] @
     opt_line w_type (bean_type bean) [] @
     opt_line w_price (price bean) w_yuan @
     (case flavor bean of
        None \<Rightarrow> []
      | Some fs \<Rightarrow>
          if fs \<noteq> [] then w_flavor @ asc '': '' @ join (asc '', '') fs @ [10] else [])"

definition bean_tail :: "int blend_component list \<Rightarrow> jsstring option \<Rightarrow> jsstring" where
  "bean_tail comps nts =
     [10] @ comp_lines 0 comps @
     (case nts of
        None \<Rightarrow> []
      | Some n \<Rightarrow> if n \<noteq> [] then [10] @ w_notes @ asc '': '' @ n @ [10] else []) @
     [10] @ footer_above @
     [10, 10] @ marker_bean"

definition literal :: "jsstring \<Rightarrow> bool" where
  "literal a \<longleftrightarrow> 40 \<notin> set a \<and> hd w_blend \<notin> set a"

definition separator :: "jsstring \<Rightarrow> bool" where
  "separator u \<longleftrightarrow> u \<noteq> [] \<and> breaker (hd u) \<and> hd u \<notin> set w_blend \<and> literal u"

text \<open>A blend of one component, 60 percent, with the given origin; and such a blend
  with parentheses in its name, its origin and its notes, those of the name around a
  percentage.\<close>

definition blend_bean :: "jsstring option \<Rightarrow> int coffee_bean" where
  "blend_bean org =
     \<lparr>bean_name = asc ''House'', capacity = asc ''200'', remaining = asc ''150'',
      roastLevel = None, roastDate = None, flavor = None, origin = None, process = None,
      variety = None, price = None, bean_type = None, bean_notes = None,
      blendComponents = Some [\<lparr>comp_name = asc ''A'', percentage = 60,
        comp_origin = org, comp_process = None, comp_variety = None\<rparr>]\<rparr>"

definition parenthesised_bean :: "int coffee_bean" where
  "parenthesised_bean =
     (blend_bean (Some (asc ''Kenya (AA)'')))
       \<lparr>bean_name := asc ''House (50%)'', bean_notes := Some (asc ''lot (2023)'')\<rparr>"

text \<open>An example method of one stage, with a pour time, a pour type and a detail text;
  the same method with no coffee amount; and a method whose name reads like a
  parameter line.\<close>

definition example_method :: "int brewing_method" where
  "example_method =
     \<lparr>method_id = asc ''method-1'', method_name = asc ''V60'',
      params = \<lparr>coffee = asc ''15g'', water = asc ''225g'', ratio = asc ''1:15'',
        grindSize = asc ''medium'', temp = asc ''92C'', videoUrl = [],
        stages = [\<lparr>time = 30, pourTime = 10, label = asc ''Bloom'', stage_water = asc ''30g'',
          detail = asc ''swirl gently'', pourType = asc ''circle''\<rparr>]\<rparr>\<rparr>"

definition unset_coffee_method :: "int brewing_method" where
  "unset_coffee_method =
     example_method\<lparr>params := (params example_method)\<lparr>coffee := []\<rparr>\<rparr>"

definition label_in_name_method :: "int brewing_method" where
  "label_in_name_method =
     unset_coffee_method\<lparr>method_name := w_coffee @ asc '': 18g''\<rparr>"

text \<open>
  The lines of a step section, for the statement about pour times. A line is a step,
  written \<^verbatim>\<open><index>.<blanks>[<minutes><min><seconds><sec>]<rest>\<close> from the start of the line,
  or another line. \<open>line_ok\<close>: the index, the minutes and the seconds of a step are
  decimal digits, one or more, the blanks are white space, and the rest holds a hyphen and
  no line terminator; another line does not start with a digit, nor with the three
  hyphens that end the section; no line holds a line feed. \<open>section_text\<close> is the text of
  the lines, \<open>step_times\<close> are the times \<open>60 * minutes + seconds\<close> that the headers of its
  steps give, as exact natural numbers.
\<close>

datatype section_line = Step jsstring jsstring jsstring jsstring jsstring | Other jsstring

fun line_text :: "section_line \<Rightarrow> jsstring" where
  "line_text (Step idx blanks mi se rest) =
     idx @ asc ''.'' @ blanks @ asc ''['' @ mi @ w_minutes @ se @ w_seconds @ asc '']'' @ rest"
| "line_text (Other l) = l"

definition digits :: "jsstring \<Rightarrow> bool" where
  "digits ds \<longleftrightarrow> ds \<noteq> [] \<and> list_all is_digit ds"

fun line_ok :: "section_line \<Rightarrow> bool" where
  "line_ok (Step idx blanks mi se rest) \<longleftrightarrow>
     digits idx \<and> list_all is_ws blanks \<and> 10 \<notin> set blanks \<and> digits mi \<and> digits se \<and>
     45 \<in> set rest \<and> list_all (\<lambda>c. \<not> is_line_terminator c) rest"
| "line_ok (Other l) \<longleftrightarrow>
     (l = [] \<or> \<not> is_digit (hd l)) \<and> 10 \<notin> set l \<and> \<not> prefix (asc ''---'') l"

definition section_text :: "section_line list \<Rightarrow> jsstring" where
  "section_text ls = join [10] (map line_text ls)"

fun step_seconds :: "section_line \<Rightarrow> nat list" where
  "step_seconds (Step idx blanks mi se rest) = [60 * digits_value mi + digits_value se]"
| "step_seconds (Other l) = []"

definition step_times :: "section_line list \<Rightarrow> nat list" where
  "step_times ls = concat (map step_seconds ls)"

text \<open>Two notions of the proofs: the part of the step pattern after the closing bracket
  of the time, and a line that neither holds a line feed nor starts with three hyphens.\<close>

definition re_stage_tail :: "atom list" where
  "re_stage_tail =
     [Star Space, LazyStar Dot, Star Space, Lit (asc ''-''), Star Space, LazyStar Dot, NlOrEnd]"

definition plain_line :: "jsstring \<Rightarrow> bool" where
  "plain_line x \<longleftrightarrow> 10 \<notin> set x \<and> \<not> prefix [45, 45, 45] x"

text \<open>
  A method of three stages, ending at 0:30, 1:00 and 2:05, and its formatted text cut
  into the text before the step marker, the lines of the step section and the text from
  the footer on.
\<close>

definition steps_method :: "int brewing_method" where
  "steps_method =
     example_method\<lparr>params := (params example_method)\<lparr>stages :=
       [\<lparr>time = 30, pourTime = 10, label = asc ''Bloom'', stage_water = asc ''30g'',
          detail = asc ''swirl gently'', pourType = asc ''circle''\<rparr>,
        \<lparr>time = 60, pourTime = 0, label = asc ''Pour'', stage_water = asc ''120g'',
          detail = [], pourType = []\<rparr>,
        \<lparr>time = 125, pourTime = 30, label = asc ''Final'', stage_water = asc ''225g'',
          detail = [], pourType = asc ''center''\<rparr>]\<rparr>\<rparr>"

definition steps_pre :: jsstring where
  "steps_pre =
     hdr_method @ asc ''V60\<newline>\<newline>'' @
     w_coffee @ asc '': 15g\<newline>'' @ w_water @ asc '': 225g\<newline>'' @ w_ratio @ asc '': 1:15\<newline>'' @
     w_grind @ asc '': medium\<newline>'' @ w_temp @ asc '': 92C\<newline>\<newline>''"

definition steps_lines :: "section_line list" where
  "steps_lines =
     [Other [], Other [],
      Step (asc ''1'') (asc '' '') (asc ''0'') (asc ''30'')
        (asc '' ('' @ w_pour @ asc ''10'' @ w_seconds @ asc '') ['' @ w_pour_circle @
         asc ''] Bloom - 30g''),
      Other (asc ''   swirl gently''), Other [],
      Step (asc ''2'') (asc '' '') (asc ''1'') (asc ''0'') (asc '' Pour - 120g''),
      Other [],
      Step (asc ''3'') (asc '' '') (asc ''2'') (asc ''5'')
        (asc '' ('' @ w_pour @ asc ''30'' @ w_seconds @ asc '') ['' @ w_pour_center @
         asc ''] Final - 225g''),
      Other []]"

definition steps_post :: jsstring where
  "steps_post = asc ''\<newline>'' @ footer_above @ asc ''\<newline>\<newline>'' @ marker_method"

text \<open>The values a normalised pour type and valve status may have.\<close>

definition pour_types :: "json set" where
  "pour_types = {JStr (asc ''center''), JStr (asc ''circle''), JStr (asc ''ice''), JStr (asc ''other'')}"

definition valve_states :: "json set" where
  "valve_states = {JStr (asc ''open''), JStr (asc ''closed''), JStr []}"

text \<open>
  An example platform for the concrete statements. Its \<^verbatim>\<open>JSON.parse\<close> knows six texts,
  listed with the values JavaScript parses them to, and rejects every other text (as
  \<^verbatim>\<open>JSON.parse\<close> does with the texts the statements below give it, none of which is JSON).
  Its numbers are rendered as integers are (none of the examples renders a number); its
  clock and its random text are fixed. \<open>jq s\<close> is \<open>s\<close> in double quotes.
\<close>

definition jq :: "string \<Rightarrow> jsstring" where
  "jq s = [34] @ asc s @ [34]"

definition json_spiral_text :: jsstring where
  \<comment> \<open>\<^verbatim>\<open>{"id":"old-1","method":"X","params":{"stages":[{"pourType":"spiral","valveStatus":"halfopen"}]}}\<close>\<close>
  "json_spiral_text =
     asc ''{'' @ jq ''id'' @ asc '':'' @ jq ''old-1'' @ asc '','' @
     jq ''method'' @ asc '':'' @ jq ''X'' @ asc '','' @
     jq ''params'' @ asc '':{'' @ jq ''stages'' @ asc '':[{'' @
     jq ''pourType'' @ asc '':'' @ jq ''spiral'' @ asc '','' @
     jq ''valveStatus'' @ asc '':'' @ jq ''halfopen'' @ asc ''}]}}''"

definition json_spiral :: json where
  "json_spiral =
     JObj [(asc ''id'', JStr (asc ''old-1'')), (asc ''method'', JStr (asc ''X'')),
       (asc ''params'', JObj [(asc ''stages'', JArr [JObj
          [(asc ''pourType'', JStr (asc ''spiral'')),
           (asc ''valveStatus'', JStr (asc ''halfopen''))]])])]"

definition json_empty_name_text :: jsstring where
  \<comment> \<open>\<^verbatim>\<open>{"method":"","params":{"stages":[{}]}}\<close>\<close>
  "json_empty_name_text =
     asc ''{'' @ jq ''method'' @ asc '':'' @ jq '''' @ asc '','' @
     jq ''params'' @ asc '':{'' @ jq ''stages'' @ asc '':[{}]}}''"

definition json_empty_name :: json where
  "json_empty_name =
     JObj [(asc ''method'', JStr []),
       (asc ''params'', JObj [(asc ''stages'', JArr [JObj []])])]"

definition json_null_stage_text :: jsstring where
  \<comment> \<open>\<^verbatim>\<open>{"method":"X","params":{"stages":[null]}}\<close>\<close>
  "json_null_stage_text =
     asc ''{'' @ jq ''method'' @ asc '':'' @ jq ''X'' @ asc '','' @
     jq ''params'' @ asc '':{'' @ jq ''stages'' @ asc '':[null]}}''"

definition json_null_stage :: json where
  "json_null_stage =
     JObj [(asc ''method'', JStr (asc ''X'')),
       (asc ''params'', JObj [(asc ''stages'', JArr [JNull])])]"

definition json_no_stages_text :: jsstring where
  \<comment> \<open>\<^verbatim>\<open>{"method":"X","params":{}}\<close>\<close>
  "json_no_stages_text =
     asc ''{'' @ jq ''method'' @ asc '':'' @ jq ''X'' @ asc '','' @ jq ''params'' @ asc '':{}}''"

definition json_no_stages :: json where
  "json_no_stages = JObj [(asc ''method'', JStr (asc ''X'')), (asc ''params'', JObj [])]"

definition json_no_string_text :: jsstring where
  \<comment> \<open>\<^verbatim>\<open>{"equipment":{"toString":1},"params":{"stages":[{}]}}\<close>\<close>
  "json_no_string_text =
     asc ''{'' @ jq ''equipment'' @ asc '':{'' @ jq ''toString'' @ asc '':1},'' @
     jq ''params'' @ asc '':{'' @ jq ''stages'' @ asc '':[{}]}}''"

definition json_no_string :: json where
  "json_no_string =
     JObj [(asc ''equipment'', JObj [(asc ''toString'', JNum 1)]),
       (asc ''params'', JObj [(asc ''stages'', JArr [JObj []])])]"

definition example_platform :: platform where
  "example_platform =
     \<lparr>JSON_parse = map_of
        [(json_spiral_text, json_spiral),
         (json_empty_name_text, json_empty_name),
         (json_null_stage_text, json_null_stage),
         (json_no_stages_text, json_no_stages),
         (json_no_string_text, json_no_string),
         (asc ''{}'', JObj [])],
      Number_toString = (\<lambda>x. show_int \<lfloor>x\<rfloor>),
      Date_now = 1700000000000,
      Math_random_36 = asc ''0.4fzyo82mvyr''\<rparr>"

section \<open>Properties of the matcher and of the string functions\<close>

lemma includes_str_sublist: "includes_str s p \<longleftrightarrow> sublist p s"
  by (induction s) (auto simp: sublist_Cons_right)

lemma search_no_label: "\<not> includes_str s l \<Longrightarrow> search (Lit l # r) s = None"
  by (induction s) auto

lemma greedy_star_suffix:
  "greedy_star c k s = Some (m, r) \<Longrightarrow> \<exists>t. suffix t s \<and> k t = Some r"
proof (induction s arbitrary: m)
  case Nil
  then show ?case by auto
next
  case (Cons x xs)
  show ?case
  proof (cases "in_cls c x \<and> greedy_star c k xs \<noteq> None")
    case True
    with Cons.prems obtain m' where "greedy_star c k xs = Some (m', r)"
      by (auto split: option.splits)
    from Cons.IH [OF this] show ?thesis
      by (auto simp: suffix_Cons)
  next
    case False
    with Cons.prems have "k (x # xs) = Some r"
      by (auto split: option.splits if_splits)
    then show ?thesis by blast
  qed
qed

lemma lazy_star_suffix:
  "lazy_star c k s = Some (m, r) \<Longrightarrow> \<exists>t. suffix t s \<and> k t = Some r"
proof (induction s arbitrary: m)
  case Nil
  then show ?case by auto
next
  case (Cons x xs)
  show ?case
  proof (cases "k (x # xs)")
    case None
    with Cons.prems obtain m' where "lazy_star c k xs = Some (m', r)"
      by (auto split: option.splits if_splits)
    from Cons.IH [OF this] show ?thesis
      by (auto simp: suffix_Cons)
  next
    case (Some r')
    with Cons.prems have "r' = r" by simp
    with Some show ?thesis by blast
  qed
qed

lemma greedy_plus_suffix:
  assumes "greedy_plus c k s = Some (m, r)"
  shows "\<exists>t. suffix t s \<and> k t = Some r"
proof (cases s)
  case Nil
  with assms show ?thesis by simp
next
  case (Cons x xs)
  with assms obtain m' where "greedy_star c k xs = Some (m', r)"
    by (auto split: option.splits if_splits)
  from greedy_star_suffix [OF this] Cons show ?thesis
    by (auto simp: suffix_Cons)
qed

lemma match_atom_suffix:
  "match_atom a k s = Some m \<Longrightarrow> \<exists>t m'. suffix t s \<and> k t = Some m'"
proof (cases a)
  case (Lit l)
  assume "match_atom a k s = Some m"
  with Lit obtain m' where "k (drop (length l) s) = Some m'"
    by (auto split: if_splits)
  then show ?thesis using suffix_drop by blast
next
  case (Star c)
  assume "match_atom a k s = Some m"
  with Star obtain c' r where "greedy_star c k s = Some (c', r)" by auto
  from greedy_star_suffix [OF this] show ?thesis by blast
next
  case (Plus c)
  assume "match_atom a k s = Some m"
  with Plus obtain c' r where "greedy_plus c k s = Some (c', r)" by auto
  from greedy_plus_suffix [OF this] show ?thesis by blast
next
  case (LazyStar c)
  assume "match_atom a k s = Some m"
  with LazyStar obtain c' r where "lazy_star c k s = Some (c', r)" by auto
  from lazy_star_suffix [OF this] show ?thesis by blast
next
  case NlOrEnd
  assume "match_atom a k s = Some m"
  with NlOrEnd show ?thesis
    by (cases s) (auto split: if_splits simp: suffix_Cons)
qed

lemma matchAt_append_suffix:
  "matchAt (as @ bs) s = Some m \<Longrightarrow> \<exists>t m'. suffix t s \<and> matchAt bs t = Some m'"
proof (induction as arbitrary: s m)
  case Nil
  then show ?case by auto
next
  case (Cons a as)
  from Cons.prems obtain t m' where t: "suffix t s" "matchAt (as @ bs) t = Some m'"
    using match_atom_suffix [of a "matchAt (as @ bs)" s m] by auto
  from Cons.IH [OF t(2)] t(1) show ?case
    by (meson suffix_order.trans)
qed

lemma matchAll_suffix:
  "matchAll r k s \<noteq> [] \<Longrightarrow> \<exists>t m. suffix t s \<and> matchAt r t = Some m"
proof (induction s arbitrary: k)
  case Nil
  then show ?case by (auto split: if_splits option.splits)
next
  case (Cons x xs)
  show ?case
  proof (cases "matchAt r (x # xs)")
    case (Some m)
    then show ?thesis by blast
  next
    case None
    with Cons.prems obtain k' where "matchAll r k' xs \<noteq> []"
      by (auto split: if_splits)
    from Cons.IH [OF this] obtain t m where "suffix t xs" "matchAt r t = Some m"
      by blast
    then show ?thesis
      by (meson suffix_ConsI)
  qed
qed

lemma cut_Some: "cut sep s = Some (b, a) \<Longrightarrow> s = b @ sep @ a"
proof (induction s arbitrary: b)
  case Nil
  then show ?case by (auto split: if_splits)
next
  case (Cons x xs)
  show ?case
  proof (cases "prefix sep (x # xs)")
    case True
    with Cons.prems show ?thesis
      by (auto simp: prefix_def)
  next
    case False
    with Cons.prems obtain b' where "cut sep xs = Some (b', a)" "b = x # b'"
      by (auto split: option.splits)
    with Cons.IH show ?thesis by auto
  qed
qed

lemma first_piece_prefix: "prefix (first_piece sep s) s"
proof (cases "sep = []")
  case True
  then show ?thesis
    by (cases s) (simp_all add: first_piece_def split_str.simps)
next
  case False
  then show ?thesis
    unfolding first_piece_def
    by (subst split_str.simps) (auto split: option.splits dest: cut_Some)
qed

lemma second_piece_within:
  assumes "sep \<noteq> []"
  shows "\<exists>a. suffix a s \<and> prefix (second_piece sep s) a"
proof (cases "cut sep s")
  case None
  with assms have "second_piece sep s = []"
    unfolding second_piece_def by (subst split_str.simps) simp
  then show ?thesis by auto
next
  case (Some ba)
  obtain b a where ba: "ba = (b, a)" by (cases ba)
  with Some have s: "s = b @ sep @ a" by (auto dest: cut_Some)
  from Some ba assms have "split_str sep s = b # split_str sep a"
    by (subst split_str.simps) simp
  then have "second_piece sep s = first_piece sep a"
    by (simp add: second_piece_def first_piece_def split: list.splits)
  moreover have "suffix a s"
    unfolding s by (metis append.assoc suffixI)
  ultimately show ?thesis
    using first_piece_prefix by metis
qed

lemma includes_cut: "includes_str s sep \<Longrightarrow> cut sep s \<noteq> None"
  by (induction s) (auto split: option.splits)

lemma second_piece_defined:
  assumes "sep \<noteq> []" and "includes_str s sep"
  shows "\<exists>a b rest. split_str sep s = a # b # rest"
proof -
  from assms(2) obtain b a where c: "cut sep s = Some (b, a)"
    using includes_cut by fastforce
  have "\<exists>x xs. split_str sep a = x # xs"
    using assms(1) by (subst split_str.simps) (auto split: option.splits)
  with c assms(1) show ?thesis
    by (subst split_str.simps) auto
qed

lemma dec_digits: "set (dec n) \<subseteq> {48..57}"
proof (induction n rule: dec.induct)
  case (1 n)
  show ?case
  proof (cases "n < 10")
    case True
    then show ?thesis by (subst dec.simps) auto
  next
    case False
    with 1 have "set (dec (n div 10)) \<subseteq> {48..57}" by simp
    moreover have "48 + n mod 10 \<in> {48..57}" by (simp add: less_Suc_eq_le [symmetric])
    ultimately show ?thesis using False by (subst dec.simps) auto
  qed
qed

lemma no_paren_dec: "40 \<notin> set (dec n)"
  using dec_digits [of n] by auto

lemma no_paren_show_int: "40 \<notin> set (show_int i)"
  by (simp add: show_int_def no_paren_dec)

lemma includes_str_append: "includes_str (a @ p @ b) p"
  by (simp add: includes_str_sublist)

lemmas bean_words =
  hdr_bean_def w_capacity_def w_remaining_def w_roast_def w_roastDate_def w_origin_def
  w_process_def w_variety_def w_type_def w_price_def w_yuan_def w_flavor_def w_blend_def
  w_notes_def w_unknown_def w_lightRoast_def footer_above_def marker_bean_def

lemma greedy_star_consumes:
  "greedy_star c k s = Some (m, r) \<Longrightarrow> \<exists>t. s = m @ t \<and> k t = Some r"
proof (induction s arbitrary: m)
  case Nil
  then show ?case by auto
next
  case (Cons x xs)
  show ?case
  proof (cases "in_cls c x \<and> greedy_star c k xs \<noteq> None")
    case True
    with Cons.prems obtain m' where m': "greedy_star c k xs = Some (m', r)" "m = x # m'"
      by (auto split: option.splits)
    from Cons.IH [OF m'(1)] m'(2) show ?thesis by auto
  next
    case False
    with Cons.prems have "k (x # xs) = Some r" "m = []"
      by (auto split: option.splits if_splits)
    then show ?thesis by simp
  qed
qed

lemma lazy_star_consumes:
  "lazy_star c k s = Some (m, r) \<Longrightarrow> \<exists>t. s = m @ t \<and> k t = Some r"
proof (induction s arbitrary: m)
  case Nil
  then show ?case by auto
next
  case (Cons x xs)
  show ?case
  proof (cases "k (x # xs)")
    case None
    with Cons.prems obtain m' where m': "lazy_star c k xs = Some (m', r)" "m = x # m'"
      by (auto split: option.splits if_splits)
    from Cons.IH [OF m'(1)] m'(2) show ?thesis by auto
  next
    case (Some r')
    with Cons.prems have "r' = r" "m = []" by simp_all
    with Some show ?thesis by simp
  qed
qed

lemma greedy_plus_consumes:
  assumes "greedy_plus c k s = Some (m, r)"
  shows "\<exists>t. s = m @ t \<and> k t = Some r"
proof (cases s)
  case Nil
  with assms show ?thesis by simp
next
  case (Cons x xs)
  with assms obtain m' where m': "greedy_star c k xs = Some (m', r)" "m = x # m'"
    by (auto split: option.splits if_splits)
  from greedy_star_consumes [OF m'(1)] m'(2) Cons show ?thesis by auto
qed

lemma match_atom_consumes:
  assumes "match_atom a k s = Some m"
  shows "\<exists>c m' t. m = c # m' \<and> s = c @ t \<and> k t = Some m'"
proof (cases a)
  case (Lit l)
  with assms have p: "prefix l s" by (simp split: if_splits)
  with assms Lit obtain m' where m': "k (drop (length l) s) = Some m'" "m = l # m'"
    by auto
  from p have "s = l @ drop (length l) s"
    by (auto simp: prefix_def)
  with m' show ?thesis by blast
next
  case (Star c)
  with assms obtain ch r where h: "greedy_star c k s = Some (ch, r)" "m = ch # r" by auto
  from greedy_star_consumes [OF h(1)] h(2) show ?thesis by blast
next
  case (Plus c)
  with assms obtain ch r where h: "greedy_plus c k s = Some (ch, r)" "m = ch # r" by auto
  from greedy_plus_consumes [OF h(1)] h(2) show ?thesis by blast
next
  case (LazyStar c)
  with assms obtain ch r where h: "lazy_star c k s = Some (ch, r)" "m = ch # r" by auto
  from lazy_star_consumes [OF h(1)] h(2) show ?thesis by blast
next
  case NlOrEnd
  show ?thesis
  proof (cases s)
    case Nil
    with assms NlOrEnd obtain m' where "k [] = Some m'" "m = [] # m'" by auto
    with Nil show ?thesis by simp
  next
    case (Cons x xs)
    with assms NlOrEnd have x: "x = 10" by (simp split: if_splits)
    with assms NlOrEnd Cons obtain m' where "k xs = Some m'" "m = [10] # m'" by auto
    with Cons x have "m = [10] # m' \<and> s = [10] @ xs \<and> k xs = Some m'" by simp
    then show ?thesis by blast
  qed
qed

lemma search_Some: "search r s = Some m \<Longrightarrow> \<exists>pre t. s = pre @ t \<and> matchAt r t = Some m"
proof (induction s)
  case Nil
  then show ?case by simp
next
  case (Cons x xs)
  show ?case
  proof (cases "matchAt r (x # xs)")
    case None
    with Cons.prems have "search r xs = Some m" by simp
    from Cons.IH [OF this] obtain pre t where "xs = pre @ t" "matchAt r t = Some m" by blast
    then have "x # xs = (x # pre) @ t \<and> matchAt r t = Some m" by simp
    then show ?thesis by blast
  next
    case (Some m')
    with Cons.prems have "x # xs = [] @ (x # xs) \<and> matchAt r (x # xs) = Some m" by simp
    then show ?thesis by blast
  qed
qed

lemma matchAt_length: "matchAt r s = Some m \<Longrightarrow> length m = length r"
proof (induction r arbitrary: s m)
  case Nil
  then show ?case by simp
next
  case (Cons a r)
  from Cons.prems have "match_atom a (matchAt r) s = Some m" by simp
  from match_atom_consumes [OF this] obtain c m' t where
    "m = c # m'" "matchAt r t = Some m'"
    by blast
  with Cons.IH show ?case by simp
qed

lemma search_length: "search r s = Some m \<Longrightarrow> length m = length r"
  using search_Some matchAt_length by blast

lemma search_skip_char:
  "c \<notin> set pre \<Longrightarrow> search (Lit (c # l) # r) (pre @ rest) = search (Lit (c # l) # r) rest"
  by (induction pre) (auto simp: prefix_Cons)

lemma no_straddle:
  assumes "\<not> includes_str pre l" and "x \<notin> set l"
  shows "\<not> prefix l (pre @ x # rest)"
proof
  assume "prefix l (pre @ x # rest)"
  then consider "prefix l pre" | us where "l = pre @ us" "prefix us (x # rest)"
    by (auto simp: prefix_append)
  then show False
  proof cases
    case 1
    with assms(1) show False
      by (cases pre) (auto simp: prefix_def)
  next
    case 2
    show False
    proof (cases us)
      case Nil
      with 2 assms(1) show False by (cases pre) auto
    next
      case (Cons u us')
      with 2 assms(2) show False by (auto simp: prefix_Cons)
    qed
  qed
qed

lemma search_skip_text:
  "\<not> includes_str pre l \<Longrightarrow> x \<notin> set l \<Longrightarrow>
   search (Lit l # r) (pre @ x # rest) = search (Lit l # r) (x # rest)"
proof (induction pre)
  case Nil
  then show ?case by simp
next
  case (Cons p pre)
  from Cons.prems have "\<not> prefix l ((p # pre) @ x # rest)"
    by (rule no_straddle)
  moreover from Cons.prems have "\<not> includes_str pre l" by simp
  ultimately show ?case using Cons by simp
qed

lemma trim_hd_not_ws:
  assumes "trim s = x # t"
  shows "\<not> is_ws x"
proof -
  define u where "u = dropWhile is_ws s"
  from assms have a: "rev (dropWhile is_ws (rev u)) = x # t"
    by (simp add: trim_def u_def)
  show ?thesis
  proof (cases u)
    case Nil
    with a show ?thesis by simp
  next
    case (Cons y ys)
    then have y: "\<not> is_ws y"
      unfolding u_def by (metis hd_dropWhile list.sel(1) list.distinct(1))
    have "dropWhile is_ws (rev u) = dropWhile is_ws (rev ys) @ [y] \<or> dropWhile is_ws (rev u) = [y]"
      using y Cons by (simp add: dropWhile_append)
    then have "hd (rev (dropWhile is_ws (rev u))) = y"
      by auto
    with a y show ?thesis by simp
  qed
qed

lemma trim_not_indented: "\<not> startsWith (trim s) (asc '' '')"
  by (cases "trim s") (auto simp: startsWith_def asc_def is_ws_def dest!: trim_hd_not_ws)

lemma detail_line_None: "detail_line rest = None"
  by (cases rest) (simp_all add: detail_line_def trim_not_indented)

lemma make_stage_detail: "detail (make_stage minutes seconds l w rest) = []"
  by (simp add: make_stage_def detail_line_None Let_def)

lemma stage_lines_sound:
  "st \<in> set (parse_stage_lines ls) \<Longrightarrow>
   \<exists>line rest minutes seconds l w. line \<in> set ls \<and>
      stage_header line = Some (minutes, seconds, l, w) \<and>
      st = make_stage minutes seconds l w rest"
proof (induction ls)
  case Nil
  then show ?case by simp
next
  case (Cons line rest)
  show ?case
  proof (cases "stage_header line")
    case None
    with Cons.prems have "st \<in> set (parse_stage_lines rest)" by simp
    from Cons.IH [OF this] obtain line' rest' minutes seconds l w where
      "line' \<in> set rest" "stage_header line' = Some (minutes, seconds, l, w)"
      "st = make_stage minutes seconds l w rest'"
      by blast
    then have "line' \<in> set (line # rest) \<and> stage_header line' = Some (minutes, seconds, l, w) \<and>
      st = make_stage minutes seconds l w rest'"
      by simp
    then show ?thesis by blast
  next
    case (Some h)
    obtain minutes seconds l w where h: "h = (minutes, seconds, l, w)"
      by (cases h)
    from Cons.prems Some h have
      "st = make_stage minutes seconds l w rest \<or> st \<in> set (parse_stage_lines rest)"
      by (simp add: detail_line_None)
    then show ?thesis
    proof
      assume "st = make_stage minutes seconds l w rest"
      with Some h have "line \<in> set (line # rest) \<and>
        stage_header line = Some (minutes, seconds, l, w) \<and>
        st = make_stage minutes seconds l w rest"
        by simp
      then show ?thesis by blast
    next
      assume "st \<in> set (parse_stage_lines rest)"
      from Cons.IH [OF this] obtain line' rest' minutes' seconds' l' w' where
        "line' \<in> set rest" "stage_header line' = Some (minutes', seconds', l', w')"
        "st = make_stage minutes' seconds' l' w' rest'"
        by blast
      then have "line' \<in> set (line # rest) \<and>
        stage_header line' = Some (minutes', seconds', l', w') \<and>
        st = make_stage minutes' seconds' l' w' rest'"
        by simp
      then show ?thesis by blast
    qed
  qed
qed

lemmas method_words =
  hdr_method_def w_unset_def w_coffee_def w_water_def w_ratio_def w_grind_def w_temp_def
  w_steps_def w_minutes_def w_seconds_def w_pour_def w_pour_center_def w_pour_circle_def
  w_pour_ice_def w_pour_other_def kw_center_def kw_centre_def kw_ice_cube_def kw_ice_def
  marker_method_def footer_above_def

lemmas method_format_defs =
  methodToReadableText_def param_line_def stage_text_def timeText_def pourTimeText_def
  pourTypeText_def getPourTypeText_def js_rem_def show_int_def dec.simps asc_def

lemmas method_parse_defs =
  parseMethodText_def parse_stages_def stageLines_def first_piece_def second_piece_def
  split_str.simps stage_header_def re_stage_header_def re_stage_def make_stage_def
  detail_line_def infer_detail_def infer_label_def startsWith_def
  is_ws_def is_digit_def is_line_terminator_def trim_def parseInt_def digits_value_def
  to_double_def dbl_times_def dbl_plus_def ceil_quarter_def numeral_eq_enat

lemmas json_examples =
  example_platform_def json_spiral_text_def json_spiral_def json_empty_name_text_def
  json_empty_name_def json_null_stage_text_def json_null_stage_def json_no_stages_text_def
  json_no_stages_def json_no_string_text_def json_no_string_def jq_def asc_def

lemmas json_parse_defs =
  parseMethodFromJson_def method_of_json_def method_name_of_def parse_json_stages_def
  parse_stage_def
  norm_pourType_def norm_valveStatus_def or_else_def fresh_id_def dec.simps
  w_mediumFine_def w_92C_def

section \<open>Step lines and their pour times\<close>

lemma greedy_star_run:
  assumes "list_all (in_cls c) m" and "rest = [] \<or> \<not> in_cls c (hd rest)" and "k rest = Some r"
  shows "greedy_star c k (m @ rest) = Some (m, r)"
  using assms
proof (induction m)
  case Nil
  then show ?case by (cases rest) auto
next
  case (Cons y m)
  then show ?case by simp
qed

lemma greedy_plus_run:
  assumes "m \<noteq> []" and "list_all (in_cls c) m" and "rest = [] \<or> \<not> in_cls c (hd rest)"
    and "k rest = Some r"
  shows "greedy_plus c k (m @ rest) = Some (m, r)"
proof -
  from assms(1) obtain y m' where m: "m = y # m'" by (cases m) auto
  with assms(2) have "list_all (in_cls c) m'" "in_cls c y" by simp_all
  with greedy_star_run [of c m' rest k r] assms(3,4) m show ?thesis by simp
qed

lemma greedy_star_some:
  assumes "list_all (in_cls c) m" and "k rest \<noteq> None"
  shows "greedy_star c k (m @ rest) \<noteq> None"
  using assms
proof (induction m)
  case Nil
  then show ?case by (cases rest) (auto split: option.splits)
next
  case (Cons y m)
  then show ?case by (auto split: option.splits)
qed

lemma greedy_plus_some:
  assumes "m \<noteq> []" and "list_all (in_cls c) m" and "k rest \<noteq> None"
  shows "greedy_plus c k (m @ rest) \<noteq> None"
proof -
  from assms(1) obtain y m' where m: "m = y # m'" by (cases m) auto
  with assms(2) have "list_all (in_cls c) m'" "in_cls c y" by simp_all
  with greedy_star_some [of c m' k rest] assms(3) m show ?thesis
    by (auto split: option.splits)
qed

lemma lazy_star_some:
  assumes "list_all (in_cls c) a" and "k b \<noteq> None"
  shows "lazy_star c k (a @ b) \<noteq> None"
  using assms
proof (induction a)
  case Nil
  then show ?case by (cases b) (auto split: option.splits)
next
  case (Cons y a)
  then show ?case by (auto split: option.splits)
qed

lemma lit_append: "match_atom (Lit l) k (l @ s) = map_option ((#) l) (k s)"
  by simp

lemma matchAt_Lit: "matchAt r s = Some m \<Longrightarrow> matchAt (Lit l # r) (l @ s) = Some (l # m)"
  by simp

lemma matchAt_Plus:
  assumes "matchAt r s = Some m" and "ch \<noteq> []" and "list_all (in_cls c) ch"
    and "s = [] \<or> \<not> in_cls c (hd s)"
  shows "matchAt (Plus c # r) (ch @ s) = Some (ch # m)"
  using greedy_plus_run [of ch c s "matchAt r" m] assms by simp

lemma matchAt_Star:
  assumes "matchAt r s = Some m" and "list_all (in_cls c) ch"
    and "s = [] \<or> \<not> in_cls c (hd s)"
  shows "matchAt (Star c # r) (ch @ s) = Some (ch # m)"
  using greedy_star_run [of c ch s "matchAt r" m] assms by simp

lemma matchAt_Lit_some: "matchAt r s \<noteq> None \<Longrightarrow> matchAt (Lit l # r) (l @ s) \<noteq> None"
  by simp

lemma matchAt_Plus_some:
  assumes "matchAt r s \<noteq> None" and "ch \<noteq> []" and "list_all (in_cls c) ch"
  shows "matchAt (Plus c # r) (ch @ s) \<noteq> None"
  using greedy_plus_some [of ch c "matchAt r" s] assms by simp

lemma matchAt_Star_some:
  assumes "matchAt r s \<noteq> None" and "list_all (in_cls c) ch"
  shows "matchAt (Star c # r) (ch @ s) \<noteq> None"
  using greedy_star_some [of c ch "matchAt r" s] assms by simp

lemma matchAt_LazyStar_some:
  assumes "matchAt r s \<noteq> None" and "list_all (in_cls c) ch"
  shows "matchAt (LazyStar c # r) (ch @ s) \<noteq> None"
  using lazy_star_some [of c ch "matchAt r" s] assms by simp

lemma search_first: "matchAt r s = Some m \<Longrightarrow> search r s = Some m"
  by (cases s) simp_all

lemma stage_tail_matches:
  assumes "45 \<in> set rest" and "list_all (\<lambda>c. \<not> is_line_terminator c) rest"
  shows "matchAt re_stage_tail rest \<noteq> None"
proof -
  from assms(1) obtain a b where rest: "rest = a @ 45 # b"
    by (auto dest: split_list)
  with assms(2) have a: "list_all (in_cls Dot) a" and b: "list_all (in_cls Dot) b"
    by (simp_all add: list_all_iff)
  have "matchAt [NlOrEnd] [] \<noteq> None" by simp
  then have "matchAt [LazyStar Dot, NlOrEnd] (b @ []) \<noteq> None"
    using b by (rule matchAt_LazyStar_some)
  then have "matchAt [Star Space, LazyStar Dot, NlOrEnd] ([] @ b) \<noteq> None"
    by (intro matchAt_Star_some) simp_all
  then have "matchAt [Lit (asc ''-''), Star Space, LazyStar Dot, NlOrEnd] (asc ''-'' @ b) \<noteq> None"
    by (intro matchAt_Lit_some) simp
  then have "matchAt [Star Space, Lit (asc ''-''), Star Space, LazyStar Dot, NlOrEnd]
      ([] @ asc ''-'' @ b) \<noteq> None"
    by (intro matchAt_Star_some) simp_all
  then have "matchAt [LazyStar Dot, Star Space, Lit (asc ''-''), Star Space, LazyStar Dot, NlOrEnd]
      (a @ asc ''-'' @ b) \<noteq> None"
    using a by (intro matchAt_LazyStar_some) simp_all
  then have "matchAt re_stage_tail ([] @ a @ asc ''-'' @ b) \<noteq> None"
    unfolding re_stage_tail_def by (intro matchAt_Star_some) simp_all
  then show ?thesis by (simp add: rest asc_def)
qed

lemma list7:
  assumes "length xs = 7"
  shows "\<exists>a b c d e f g. xs = [a, b, c, d, e, f, g]"
proof -
  from assms obtain a x1 where "xs = a # x1" "length x1 = 6" by (cases xs) auto
  moreover then obtain b x2 where "x1 = b # x2" "length x2 = 5" by (cases x1) auto
  moreover then obtain c x3 where "x2 = c # x3" "length x3 = 4" by (cases x2) auto
  moreover then obtain d x4 where "x3 = d # x4" "length x4 = 3" by (cases x3) auto
  moreover then obtain e x5 where "x4 = e # x5" "length x5 = 2" by (cases x4) auto
  moreover then obtain f x6 where "x5 = f # x6" "length x6 = 1" by (cases x5) auto
  moreover then obtain g where "x6 = [g]" by (cases x6) auto
  ultimately show ?thesis by simp
qed

lemma step_header:
  assumes "line_ok (Step idx blanks mi se rest)"
  shows "\<exists>l w. stage_header (line_text (Step idx blanks mi se rest)) =
           Some (parseInt mi, parseInt se, l, w)"
proof -
  from assms have idx: "idx \<noteq> []" "list_all (in_cls Digit) idx"
    and mi: "mi \<noteq> []" "list_all (in_cls Digit) mi"
    and se: "se \<noteq> []" "list_all (in_cls Digit) se"
    and bl: "list_all (in_cls Space) blanks"
    and rest: "45 \<in> set rest" "list_all (\<lambda>c. \<not> is_line_terminator c) rest"
    by (simp_all add: digits_def list_all_iff)
  let ?line = "line_text (Step idx blanks mi se rest)"
  \<comment> \<open>the header test\<close>
  have dots: "list_all (in_cls Dot) (mi @ w_minutes @ se @ w_seconds)"
    using mi(2) se(2)
    by (auto simp: list_all_iff is_digit_def is_line_terminator_def w_minutes_def w_seconds_def)
  have "matchAt [Lit (asc '']'')] (asc '']'' @ rest) \<noteq> None" by simp
  then have "matchAt [LazyStar Dot, Lit (asc '']'')]
      ((mi @ w_minutes @ se @ w_seconds) @ asc '']'' @ rest) \<noteq> None"
    using dots by (rule matchAt_LazyStar_some)
  then have "matchAt [Lit (asc ''[''), LazyStar Dot, Lit (asc '']'')]
      (asc ''['' @ (mi @ w_minutes @ se @ w_seconds) @ asc '']'' @ rest) \<noteq> None"
    by (rule matchAt_Lit_some)
  then have "matchAt [Star Space, Lit (asc ''[''), LazyStar Dot, Lit (asc '']'')]
      (blanks @ asc ''['' @ (mi @ w_minutes @ se @ w_seconds) @ asc '']'' @ rest) \<noteq> None"
    using bl by (rule matchAt_Star_some)
  then have "matchAt [Lit (asc ''.''), Star Space, Lit (asc ''[''), LazyStar Dot, Lit (asc '']'')]
      (asc ''.'' @ blanks @ asc ''['' @ (mi @ w_minutes @ se @ w_seconds) @ asc '']'' @ rest) \<noteq> None"
    by (rule matchAt_Lit_some)
  then have "matchAt re_stage_header
      (idx @ asc ''.'' @ blanks @ asc ''['' @ (mi @ w_minutes @ se @ w_seconds) @ asc '']'' @ rest) \<noteq> None"
    unfolding re_stage_header_def using idx by (rule matchAt_Plus_some)
  then have hdr: "matchAt re_stage_header ?line \<noteq> None"
    by simp
  \<comment> \<open>the step pattern\<close>
  from stage_tail_matches [OF rest] obtain tc where tc: "matchAt re_stage_tail rest = Some tc"
    by auto
  from matchAt_length [OF this] have "length tc = 7"
    by (simp add: re_stage_tail_def)
  then obtain c1 c2 c3 c4 c5 c6 c7 where tcs: "tc = [c1, c2, c3, c4, c5, c6, c7]"
    using list7 by blast
  let ?close = "w_seconds @ asc '']''"
  have 8: "matchAt (Lit ?close # re_stage_tail) (?close @ rest) = Some (?close # tc)"
    using tc by (rule matchAt_Lit)
  have 7: "matchAt (Plus Digit # Lit ?close # re_stage_tail) (se @ ?close @ rest) =
      Some (se # ?close # tc)"
    using 8 se by (rule matchAt_Plus) (simp add: w_seconds_def is_digit_def)
  have 6: "matchAt (Lit w_minutes # Plus Digit # Lit ?close # re_stage_tail)
      (w_minutes @ se @ ?close @ rest) = Some (w_minutes # se # ?close # tc)"
    using 7 by (rule matchAt_Lit)
  have 5: "matchAt (Plus Digit # Lit w_minutes # Plus Digit # Lit ?close # re_stage_tail)
      (mi @ w_minutes @ se @ ?close @ rest) = Some (mi # w_minutes # se # ?close # tc)"
    using 6 mi by (rule matchAt_Plus) (simp add: w_minutes_def is_digit_def)
  have 4: "matchAt (Lit (asc ''['') # Plus Digit # Lit w_minutes # Plus Digit # Lit ?close #
      re_stage_tail) (asc ''['' @ mi @ w_minutes @ se @ ?close @ rest) =
      Some (asc ''['' # mi # w_minutes # se # ?close # tc)"
    using 5 by (rule matchAt_Lit)
  have 3: "matchAt (Star Space # Lit (asc ''['') # Plus Digit # Lit w_minutes # Plus Digit #
      Lit ?close # re_stage_tail) (blanks @ asc ''['' @ mi @ w_minutes @ se @ ?close @ rest) =
      Some (blanks # asc ''['' # mi # w_minutes # se # ?close # tc)"
    using 4 bl by (rule matchAt_Star) (simp add: asc_def is_ws_def)
  have 2: "matchAt (Lit (asc ''.'') # Star Space # Lit (asc ''['') # Plus Digit # Lit w_minutes #
      Plus Digit # Lit ?close # re_stage_tail)
      (asc ''.'' @ blanks @ asc ''['' @ mi @ w_minutes @ se @ ?close @ rest) =
      Some (asc ''.'' # blanks # asc ''['' # mi # w_minutes # se # ?close # tc)"
    using 3 by (rule matchAt_Lit)
  have 1: "matchAt (Plus Digit # Lit (asc ''.'') # Star Space # Lit (asc ''['') # Plus Digit #
      Lit w_minutes # Plus Digit # Lit ?close # re_stage_tail)
      (idx @ asc ''.'' @ blanks @ asc ''['' @ mi @ w_minutes @ se @ ?close @ rest) =
      Some (idx # asc ''.'' # blanks # asc ''['' # mi # w_minutes # se # ?close # tc)"
    using 2 idx by (rule matchAt_Plus) (simp add: asc_def is_digit_def)
  have "matchAt re_stage ?line =
      Some [idx, asc ''.'', blanks, asc ''['', mi, w_minutes, se, ?close, c1, c2, c3, c4, c5, c6, c7]"
    using 1 by (simp add: re_stage_def re_stage_tail_def tcs)
  then have "search re_stage ?line =
      Some [idx, asc ''.'', blanks, asc ''['', mi, w_minutes, se, ?close, c1, c2, c3, c4, c5, c6, c7]"
    by (rule search_first)
  with hdr have "stage_header ?line = Some (parseInt mi, parseInt se, trim c2, trim c6)"
    by (simp add: stage_header_def)
  then show ?thesis by blast
qed

lemma other_header:
  assumes "l = [] \<or> \<not> is_digit (hd l)"
  shows "stage_header l = None"
  using assms by (cases l) (simp_all add: stage_header_def re_stage_header_def)

lemma bit_length_lower: "n \<noteq> 0 \<Longrightarrow> 2 ^ (bit_length n - 1) \<le> n"
proof (induction n rule: bit_length.induct)
  case (1 n)
  show ?case
  proof (cases "n div 2 = 0")
    case True
    with 1(2) have "bit_length n = 1"
      by (simp add: bit_length.simps [of n] bit_length.simps [of 0])
    with 1(2) show ?thesis by simp
  next
    case False
    with 1 have ih: "2 ^ (bit_length (n div 2) - 1) \<le> n div 2" by simp
    from False have "bit_length (n div 2) \<noteq> 0"
      by (simp add: bit_length.simps [of "n div 2"])
    then have "bit_length n - 1 = Suc (bit_length (n div 2) - 1)"
      using 1(2) by (simp add: bit_length.simps [of n])
    then have "(2::nat) ^ (bit_length n - 1) = 2 * 2 ^ (bit_length (n div 2) - 1)"
      by simp
    also have "\<dots> \<le> 2 * (n div 2)" using ih by simp
    also have "\<dots> \<le> n" by simp
    finally show ?thesis .
  qed
qed

lemma bit_length_53: "2 ^ 53 \<le> n \<Longrightarrow> 53 < bit_length n"
proof (rule ccontr)
  assume n: "2 ^ 53 \<le> n" and "\<not> 53 < bit_length n"
  then have b: "bit_length n \<le> 53" by simp
  have "\<And>m. m < 2 ^ bit_length m"
  proof -
    fix m :: nat
    show "m < 2 ^ bit_length m"
    proof (induction m rule: bit_length.induct)
      case (1 m)
      show ?case
      proof (cases "m = 0")
        case True
        then show ?thesis by simp
      next
        case False
        with 1 have "m div 2 < 2 ^ bit_length (m div 2)" by simp
        then have "m < 2 * 2 ^ bit_length (m div 2)" by linarith
        with False show ?thesis by (simp add: bit_length.simps [of m])
      qed
    qed
  qed
  then have "n < 2 ^ bit_length n" .
  also have "\<dots> \<le> (2::nat) ^ 53" using b by (intro power_increasing) simp_all
  finally show False using n by simp
qed

lemma to_double_large:
  assumes "2 ^ 52 \<le> n"
  shows "enat (2 ^ 52) \<le> to_double n"
proof (cases "n < 2 ^ 53")
  case True
  with assms show ?thesis by (simp add: to_double_def)
next
  case False
  define e where "e = bit_length n - 53"
  define q where "q = n div 2 ^ e"
  from False have n: "n \<noteq> 0" "53 < bit_length n"
    using bit_length_53 [of n] by auto
  then have "bit_length n - 1 = 52 + e" by (simp add: e_def)
  with bit_length_lower [OF n(1)] have "2 ^ 52 * 2 ^ e \<le> n"
    by (simp add: power_add)
  then have q: "2 ^ 52 \<le> q"
    unfolding q_def by (simp add: less_eq_div_iff_mult_less_eq)
  have "q * 1 \<le> q * 2 ^ e"
    by (intro mult_le_mono) simp_all
  then have "q \<le> q * 2 ^ e" by simp
  with q have 1: "(2::nat) ^ 52 \<le> q * 2 ^ e"
    by (rule order_trans)
  then have 2: "(2::nat) ^ 52 \<le> (q + 1) * 2 ^ e"
    by (simp add: add_mult_distrib trans_le_add1)
  show ?thesis
    using False 1 2 by (simp add: to_double_def Let_def e_def [symmetric] q_def [symmetric])
qed

lemma dbl_plus_large:
  assumes "enat (2 ^ 52) \<le> a \<or> enat (2 ^ 52) \<le> b"
  shows "enat (2 ^ 52) \<le> dbl_plus a b"
proof (cases a)
  case (enat x)
  show ?thesis
  proof (cases b)
    case (enat y)
    with \<open>a = enat x\<close> assms have "2 ^ 52 \<le> x + y" by auto
    from to_double_large [OF this] enat \<open>a = enat x\<close> show ?thesis
      by (simp add: dbl_plus_def)
  qed (simp add: dbl_plus_def enat)
qed (simp add: dbl_plus_def)

lemma ceil_quarter_large:
  assumes "enat (2 ^ 52) \<le> t"
  shows "min 20 (ceil_quarter t) = 20"
proof (cases t)
  case (enat n)
  with assms have "80 \<le> n" by simp
  then have "(20::real) \<le> real n * 0.25" by simp
  then have "20 \<le> \<lceil>real n * 0.25\<rceil>" by linarith
  then have "20 \<le> nat \<lceil>real n * 0.25\<rceil>" by linarith
  with enat show ?thesis
    by (simp add: ceil_quarter_def min_def numeral_eq_enat)
qed (simp add: ceil_quarter_def)

lemma min_enat_nat: "min 20 (enat (nat c)) = enat (nat (min 20 c))"
  by (cases "20 \<le> c") (simp_all add: min_def numeral_eq_enat)

lemma step_time_exact:
  assumes "60 * m + s < 2 ^ 53"
  shows "dbl_plus (dbl_times (to_double m) 60) (to_double s) = enat (60 * m + s)"
  using assms by (simp add: to_double_def dbl_times_def dbl_plus_def mult.commute)

lemma pourTime_exact:
  "min 20 (ceil_quarter (dbl_plus (dbl_times (to_double m) 60) (to_double s))) =
     enat (nat (min 20 \<lceil>real (60 * m + s) * 0.25\<rceil>))"
proof (cases "60 * m + s < 2 ^ 53")
  case True
  from step_time_exact [OF True] show ?thesis
    by (simp only: ceil_quarter_def enat.simps min_enat_nat)
next
  case False
  have big: "enat (2 ^ 52) \<le> dbl_plus (dbl_times (to_double m) 60) (to_double s)"
  proof (cases "2 ^ 52 \<le> s")
    case True
    from to_double_large [OF this] show ?thesis by (intro dbl_plus_large) simp
  next
    case s: False
    with False have m: "2 ^ 52 \<le> 60 * m" by simp
    have "enat (2 ^ 52) \<le> dbl_times (to_double m) 60"
    proof (cases "m < 2 ^ 53")
      case True
      with m to_double_large [of "m * 60"] show ?thesis
        by (simp add: dbl_times_def to_double_def [of m] mult.commute)
    next
      case False
      then have "enat (2 ^ 52) \<le> to_double m"
        by (intro to_double_large) simp
      then show ?thesis
      proof (cases "to_double m")
        case (enat x)
        with \<open>enat (2 ^ 52) \<le> to_double m\<close> have "2 ^ 52 \<le> x * 60" by simp
        from to_double_large [OF this] enat show ?thesis by (simp add: dbl_times_def)
      qed (simp add: dbl_times_def)
    qed
    then show ?thesis by (intro dbl_plus_large) simp
  qed
  from False have "80 \<le> 60 * m + s" by simp
  then have "(20::real) \<le> real (60 * m + s) * 0.25" by simp
  then have "20 \<le> \<lceil>real (60 * m + s) * 0.25\<rceil>" by linarith
  then have "enat (nat (min 20 \<lceil>real (60 * m + s) * 0.25\<rceil>)) = 20"
    by (simp add: min_def numeral_eq_enat)
  with ceil_quarter_large [OF big] show ?thesis by simp
qed

lemma cut_None: "\<not> includes_str s sep \<Longrightarrow> cut sep s = None"
  by (induction s) auto

lemma cut_skip:
  assumes "sep = c # sep'" and "c \<notin> set l"
  shows "cut sep (l @ x) = map_option (\<lambda>(b, a). (l @ b, a)) (cut sep x)"
  using assms(2)
proof (induction l)
  case Nil
  then show ?case by (simp add: option.map_ident split_def)
next
  case (Cons y l)
  then have "\<not> prefix sep (y # l @ x)"
    using assms(1) by (auto simp: prefix_Cons)
  with Cons show ?case
    by (auto split: option.splits)
qed

lemma distinct_no_straddle:
  assumes "distinct sep" and "\<not> prefix sep t" and "t \<noteq> []"
  shows "\<not> prefix sep (t @ sep @ b)"
proof
  assume "prefix sep (t @ sep @ b)"
  then have "prefix sep t \<or> (\<exists>us. sep = t @ us \<and> prefix us (sep @ b))"
    by (simp only: prefix_append)
  then consider "prefix sep t" | us where "sep = t @ us" "prefix us (sep @ b)"
    by blast
  then show False
  proof cases
    case 1
    with assms(2) show False by simp
  next
    case 2
    from assms(3) obtain p t' where t: "t = p # t'" by (cases t) auto
    show False
    proof (cases us)
      case Nil
      with 2 assms(2) show False by simp
    next
      case (Cons u us')
      with 2 t have "u = p" by (auto simp: prefix_Cons)
      with 2(1) Cons t assms(1) show False by simp
    qed
  qed
qed

lemma cut_first:
  assumes "sep \<noteq> []" and "distinct sep" and "\<not> includes_str pre sep"
  shows "cut sep (pre @ sep @ b) = Some (pre, b)"
  using assms(3)
proof (induction pre)
  case Nil
  from assms(1) obtain c sep' where "sep = c # sep'" by (cases sep) auto
  then show ?case by simp
next
  case (Cons p pre)
  then have "\<not> prefix sep (p # pre)" by simp
  from distinct_no_straddle [OF assms(2) this]
  have "\<not> prefix sep (p # pre @ sep @ b)" by simp
  moreover from Cons have "cut sep (pre @ sep @ b) = Some (pre, b)" by simp
  ultimately show ?case by simp
qed

lemma second_piece_once:
  assumes "sep \<noteq> []" and "distinct sep" and "\<not> includes_str pre sep" and "\<not> includes_str b sep"
  shows "second_piece sep (pre @ sep @ b) = b"
proof -
  have "split_str sep b = [b]"
    using assms(1) cut_None [OF assms(4)] by (subst split_str.simps) simp
  then have "split_str sep (pre @ sep @ b) = [pre, b]"
    using assms(1) cut_first [OF assms(1,2,3)] by (subst split_str.simps) simp
  then show ?thesis by (simp add: second_piece_def)
qed

lemma no_dashes:
  assumes "\<not> prefix [45, 45, 45] y" and "z = [] \<or> hd z \<noteq> (45::nat)"
  shows "\<not> prefix [45, 45, 45] (y @ z)"
proof (cases y)
  case Nil
  with assms(2) show ?thesis by (cases z) (auto simp: prefix_Cons)
next
  case y1: (Cons a y')
  show ?thesis
  proof (cases y')
    case Nil
    with y1 assms(2) show ?thesis by (cases z) (auto simp: prefix_Cons)
  next
    case y2: (Cons b y'')
    show ?thesis
    proof (cases y'')
      case Nil
      with y1 y2 assms(2) show ?thesis by (cases z) (auto simp: prefix_Cons)
    next
      case (Cons c y''')
      with y1 y2 assms(1) show ?thesis by (auto simp: prefix_Cons)
    qed
  qed
qed

lemma cut_section_end:
  assumes "list_all plain_line xs" and "post = [] \<or> hd post \<noteq> 45"
  shows "cut [10, 45, 45, 45] (join [10] xs @ post) =
           map_option (\<lambda>(b, a). (join [10] xs @ b, a)) (cut [10, 45, 45, 45] post)"
  using assms(1)
proof (induction "[10::nat]" xs rule: join.induct)
  case 1
  show ?case by (cases "cut [10, 45, 45, 45] post") auto
next
  case (2 x)
  then have "10 \<notin> set x" by (simp add: plain_line_def)
  from cut_skip [OF refl this, of "[45, 45, 45]" post] show ?case
    by simp
next
  case (3 x y ys)
  then have x: "10 \<notin> set x" and y: "\<not> prefix [45, 45, 45] y" "10 \<notin> set y"
    by (simp_all add: plain_line_def)
  let ?z = "join [10] (y # ys) @ post"
  have "\<exists>z. ?z = y @ z \<and> (z = [] \<or> hd z \<noteq> 45)"
  proof (cases ys)
    case Nil
    with assms(2) show ?thesis by simp
  next
    case (Cons y' ys')
    then have "?z = y @ (10 # join [10] (y' # ys') @ post) \<and>
        hd (10 # join [10] (y' # ys') @ post) \<noteq> 45"
      by simp
    then show ?thesis by blast
  qed
  then obtain z where z: "?z = y @ z" "z = [] \<or> hd z \<noteq> 45" by blast
  from no_dashes [OF y(1) z(2)] z(1) have nd: "\<not> prefix [10, 45, 45, 45] (10 # ?z)"
    by simp
  from 3 have ih: "cut [10, 45, 45, 45] ?z =
      map_option (\<lambda>(b, a). (join [10] (y # ys) @ b, a)) (cut [10, 45, 45, 45] post)"
    by simp
  have 1: "cut [10, 45, 45, 45] (join [10] (x # y # ys) @ post) =
      map_option (\<lambda>(b, a). (x @ b, a)) (cut [10, 45, 45, 45] (10 # ?z))"
    using cut_skip [OF refl x, of "[45, 45, 45]" "10 # ?z"] by simp
  have 2: "cut [10, 45, 45, 45] (10 # ?z) =
      (case cut [10, 45, 45, 45] ?z of None \<Rightarrow> None | Some (b, a) \<Rightarrow> Some (10 # b, a))"
    using nd by (subst cut.simps) (simp only: if_False)
  show ?case
    unfolding 1 2 ih by (cases "cut [10, 45, 45, 45] post") auto
qed

lemma first_piece_section:
  assumes "list_all plain_line xs" and "post = [] \<or> prefix (asc ''\<newline>---'') post"
  shows "first_piece (asc ''\<newline>---'') (join [10] xs @ post) = join [10] xs"
proof -
  have a: "asc ''\<newline>---'' = [10, 45, 45, 45]" by (simp add: asc_def)
  from assms(2) have hd: "post = [] \<or> hd post \<noteq> 45"
    unfolding a by (cases post) (auto simp: prefix_Cons)
  let ?J = "join [10] xs"
  from assms(2) consider "post = []" | q where "post = [10, 45, 45, 45] @ q"
    unfolding a by (auto simp: prefix_def)
  then show ?thesis
  proof cases
    case 1
    with cut_section_end [OF assms(1) hd] have "cut [10, 45, 45, 45] (?J @ post) = None"
      by simp
    with 1 show ?thesis
      unfolding first_piece_def a by (subst split_str.simps) simp
  next
    case 2
    then have "cut [10, 45, 45, 45] post = Some ([], q)" by simp
    with cut_section_end [OF assms(1) hd]
    have "cut [10, 45, 45, 45] (?J @ post) = Some (?J, q)"
      by simp
    then show ?thesis
      unfolding first_piece_def a by (subst split_str.simps) simp
  qed
qed

lemma split_lines:
  assumes "\<forall>x\<in>set xs. 10 \<notin> set x"
  shows "split_str [10] (join [10] xs) = (if xs = [] then [[]] else xs)"
  using assms
proof (induction "[10::nat]" xs rule: join.induct)
  case 1
  show ?case by (subst split_str.simps) simp
next
  case (2 x)
  then have "cut [10] x = None"
    using cut_skip [OF refl, of 10 x "[]" "[]"] by simp
  then show ?case by (subst split_str.simps) simp
next
  case (3 x y ys)
  then have "cut [10] (x @ 10 # join [10] (y # ys)) = Some (x, join [10] (y # ys))"
    using cut_skip [OF refl, of 10 x "[]" "10 # join [10] (y # ys)"] by simp
  with 3 show ?case by (subst split_str.simps) simp
qed

lemma filter_split_lines:
  assumes "\<forall>x\<in>set xs. 10 \<notin> set x"
  shows "filter (\<lambda>line. trim line \<noteq> []) (split_str [10] (join [10] xs)) =
         filter (\<lambda>line. trim line \<noteq> []) xs"
  using split_lines [OF assms] by (simp add: trim_def)

lemma in_dropWhile: "x \<in> set s \<Longrightarrow> \<not> P x \<Longrightarrow> x \<in> set (dropWhile P s)"
  by (induction s) auto

lemma trim_nonblank:
  assumes "x \<in> set s" and "\<not> is_ws x"
  shows "trim s \<noteq> []"
proof -
  from assms have "x \<in> set (dropWhile is_ws s)" by (rule in_dropWhile)
  with assms(2) show ?thesis
    by (auto simp: trim_def)
qed

lemma parse_stage_lines_pourTime:
  "map pourTime (parse_stage_lines ls) =
     concat (map (\<lambda>line. case stage_header line of
                    None \<Rightarrow> []
                  | Some (m, s, l, w) \<Rightarrow> [min 20 (ceil_quarter (dbl_plus (dbl_times m 60) s))]) ls)"
proof (induction ls)
  case Nil
  show ?case by simp
next
  case (Cons line rest)
  show ?case
  proof (cases "stage_header line")
    case None
    with Cons show ?thesis by simp
  next
    case (Some h)
    obtain m s l w where "h = (m, s, l, w)" by (cases h)
    with Some Cons show ?thesis
      by (simp add: detail_line_None make_stage_def Let_def)
  qed
qed

lemma line_pourTime:
  assumes "line_ok l"
  shows "(case stage_header (line_text l) of
            None \<Rightarrow> []
          | Some (m, s, l, w) \<Rightarrow> [min 20 (ceil_quarter (dbl_plus (dbl_times m 60) s))]) =
         map (\<lambda>t. enat (nat (min 20 \<lceil>real t * 0.25\<rceil>))) (step_seconds l)"
proof (cases l)
  case (Step idx blanks mi se rest)
  with assms step_header [of idx blanks mi se rest] obtain lb wt where
    "stage_header (line_text l) = Some (parseInt mi, parseInt se, lb, wt)"
    by auto
  with Step show ?thesis
    by (simp add: parseInt_def pourTime_exact)
next
  case (Other x)
  with assms other_header [of x] show ?thesis by simp
qed

lemma step_line_nonblank:
  assumes "line_ok (Step idx blanks mi se rest)"
  shows "trim (line_text (Step idx blanks mi se rest)) \<noteq> []"
proof -
  from assms obtain d ds where "idx = d # ds" "is_digit d"
    by (cases idx) (auto simp: digits_def)
  then have "d \<in> set (line_text (Step idx blanks mi se rest))" "\<not> is_ws d"
    by (auto simp: is_digit_def is_ws_def)
  then show ?thesis by (rule trim_nonblank)
qed

lemma step_line_plain:
  assumes "line_ok l"
  shows "plain_line (line_text l)"
proof (cases l)
  case (Step idx blanks mi se rest)
  with assms have d: "list_all is_digit idx" "list_all is_digit mi" "list_all is_digit se"
    "idx \<noteq> []" "10 \<notin> set blanks" "list_all (\<lambda>c. \<not> is_line_terminator c) rest"
    by (simp_all add: digits_def)
  then have "10 \<notin> set idx" "10 \<notin> set mi" "10 \<notin> set se" "10 \<notin> set rest"
    by (auto simp: list_all_iff is_digit_def is_line_terminator_def)
  moreover from d obtain c cs where "idx = c # cs" "is_digit c" by (cases idx) auto
  ultimately show ?thesis
    using d(5) Step
    by (auto simp: plain_line_def asc_def w_minutes_def w_seconds_def prefix_Cons is_digit_def)
next
  case (Other x)
  with assms show ?thesis by (simp add: plain_line_def asc_def)
qed

lemma stage_lines_section:
  assumes "\<not> includes_str pre w_steps"
    and "\<not> includes_str (section_text ls @ post) w_steps"
    and "list_all line_ok ls"
    and "post = [] \<or> prefix (asc ''\<newline>---'') post"
  shows "stageLines (pre @ w_steps @ section_text ls @ post) =
           filter (\<lambda>line. trim line \<noteq> []) (map line_text ls)"
proof -
  have w: "w_steps \<noteq> []" "distinct w_steps" by (simp_all add: w_steps_def)
  have plain: "list_all plain_line (map line_text ls)"
    using assms(3) by (simp add: list_all_iff step_line_plain)
  then have nl: "\<forall>x\<in>set (map line_text ls). 10 \<notin> set x"
    by (simp add: list_all_iff plain_line_def)
  have "second_piece w_steps (pre @ w_steps @ section_text ls @ post) = section_text ls @ post"
    using w assms(1,2) by (rule second_piece_once)
  moreover have "first_piece (asc ''\<newline>---'') (section_text ls @ post) = section_text ls"
    unfolding section_text_def using plain assms(4) by (rule first_piece_section)
  ultimately show ?thesis
    unfolding stageLines_def using filter_split_lines [OF nl]
    by (simp add: section_text_def)
qed

lemma concat_map_filter:
  assumes "\<And>x. x \<in> set xs \<Longrightarrow> \<not> P x \<Longrightarrow> f x = []"
  shows "concat (map f (filter P xs)) = concat (map f xs)"
  using assms by (induction xs) auto

section \<open>Parenthesised percentages in the text of a bean\<close>

lemma digits_percent_append: "digits_percent t \<Longrightarrow> digits_percent (t @ r)"
  by (induction t) (auto split: if_splits simp: prefix_def)

lemma after_paren_append: "after_paren t \<Longrightarrow> after_paren (t @ r)"
  by (cases t) (auto simp: digits_percent_append)

lemma paren_percent_append: "paren_percent t \<Longrightarrow> paren_percent (t @ r)"
  by (induction t) (auto simp: after_paren_append)

lemma paren_percent_prefix: "prefix t s \<Longrightarrow> paren_percent t \<Longrightarrow> paren_percent s"
  by (auto simp: prefix_def paren_percent_append)

lemma paren_percent_suffix: "suffix t s \<Longrightarrow> paren_percent t \<Longrightarrow> paren_percent s"
  by (induction s) (auto simp: suffix_Cons)

lemma paren_percent_skip: "40 \<notin> set a \<Longrightarrow> paren_percent (a @ b) = paren_percent b"
  by (induction a) auto

lemma no_paren_percent: "40 \<notin> set s \<Longrightarrow> \<not> paren_percent s"
  by (induction s) auto

lemma digits_percent_breaker: "breaker c \<Longrightarrow> digits_percent (t @ c # b) = digits_percent t"
proof (induction t)
  case Nil
  then show ?case by (simp add: breaker_def)
next
  case (Cons x t)
  then show ?case by (cases t) (auto simp: breaker_def prefix_Cons)
qed

lemma after_paren_breaker: "breaker c \<Longrightarrow> after_paren (t @ c # b) = after_paren t"
  by (cases t) (auto simp: digits_percent_breaker breaker_def)

lemma paren_percent_breaker:
  "breaker c \<Longrightarrow> paren_percent (a @ c # b) = (paren_percent a \<or> paren_percent (c # b))"
  by (induction a) (auto simp: after_paren_breaker)

lemma paren_percent_field:
  assumes "\<not> paren_percent f" and "u \<noteq> []" and "breaker (hd u)" and "40 \<notin> set u"
  shows "paren_percent (f @ u @ b) = paren_percent b"
proof -
  from assms(2) obtain c u' where u: "u = c # u'" by (cases u) auto
  with assms have "paren_percent (f @ u @ b) = paren_percent (c # u' @ b)"
    by (simp add: paren_percent_breaker)
  also have "\<dots> = paren_percent ((c # u') @ b)" by simp
  also have "\<dots> = paren_percent b"
    using assms(4) u by (intro paren_percent_skip) simp
  finally show ?thesis .
qed

lemma greedy_star_class: "greedy_star c k s = Some (m, r) \<Longrightarrow> list_all (in_cls c) m"
proof (induction s arbitrary: m)
  case Nil
  then show ?case by auto
next
  case (Cons x xs)
  show ?case
  proof (cases "in_cls c x")
    case False
    with Cons.prems show ?thesis by auto
  next
    case True
    show ?thesis
    proof (cases "greedy_star c k xs")
      case None
      with Cons.prems True show ?thesis by auto
    next
      case (Some p)
      obtain m' r' where p: "p = (m', r')" by (cases p)
      with Some Cons.prems True have "m = x # m'" by simp
      with Cons.IH [of m'] Some p Cons.prems True show ?thesis by simp
    qed
  qed
qed

lemma greedy_plus_class:
  assumes "greedy_plus c k s = Some (m, r)"
  shows "m \<noteq> [] \<and> list_all (in_cls c) m"
proof (cases s)
  case Nil
  with assms show ?thesis by simp
next
  case (Cons x xs)
  with assms obtain m' where m': "greedy_star c k xs = Some (m', r)" "m = x # m'" "in_cls c x"
    by (auto split: option.splits if_splits)
  from greedy_star_class [OF m'(1)] m'(2,3) show ?thesis by simp
qed

lemma digits_percent_digits:
  "list_all is_digit ds \<Longrightarrow> digits_percent (ds @ 37 # 41 # post)"
  by (induction ds) (auto simp: is_digit_def)

lemma percent_match_shape:
  assumes "matchAt [Lit [40], Plus Digit, Lit [37, 41]] t = Some m"
  shows "paren_percent t"
proof -
  from assms obtain t1 m1 where
    1: "t = 40 # t1" "matchAt [Plus Digit, Lit [37, 41]] t1 = Some m1"
    by (cases t) (auto split: if_splits simp: prefix_Cons)
  from 1(2) obtain ds r where
    2: "greedy_plus Digit (matchAt [Lit [37, 41]]) t1 = Some (ds, r)"
    by auto
  from greedy_plus_class [OF 2] have ds: "ds \<noteq> []" "list_all is_digit ds"
    by (simp_all add: list_all_iff)
  from greedy_plus_consumes [OF 2] obtain t2 where
    3: "t1 = ds @ t2" "matchAt [Lit [37, 41]] t2 = Some r"
    by blast
  from 3(2) have "prefix [37, 41] t2" by (simp split: if_splits)
  then obtain post where t2: "t2 = 37 # 41 # post"
    by (auto simp: prefix_def)
  from 1(1) 3(1) t2 have t: "t = 40 # ds @ 37 # 41 # post" by simp
  from ds obtain d ds' where "ds = d # ds'" by (cases ds) auto
  with ds(2) t show ?thesis
    by (simp add: digits_percent_digits)
qed

lemma component_match_percent:
  assumes "matchAt re_component s = Some m"
  shows "paren_percent s"
proof -
  have "matchAt ([Plus Digit, Lit (asc ''.''), Star Space, LazyStar Dot, Star Space] @
      [Lit [40], Plus Digit, Lit [37, 41]]) s = Some m"
    using assms by (simp add: re_component_def asc_def)
  from matchAt_append_suffix [OF this] obtain t m' where
    t: "suffix t s" "matchAt [Lit [40], Plus Digit, Lit [37, 41]] t = Some m'"
    by blast
  from t(2) have "paren_percent t" by (rule percent_match_shape)
  with t(1) show ?thesis by (rule paren_percent_suffix)
qed

lemma paren_percent_join:
  assumes "list_all (\<lambda>f. \<not> paren_percent f) fs"
    and "sep \<noteq> []" and "breaker (hd sep)" and "40 \<notin> set sep"
    and "u \<noteq> []" and "breaker (hd u)" and "40 \<notin> set u"
  shows "paren_percent (join sep fs @ u @ b) = paren_percent b"
  using assms
proof (induction sep fs rule: join.induct)
  case (1 sep)
  then show ?case by (simp add: paren_percent_skip)
next
  case (2 sep x)
  then show ?case by (simp add: paren_percent_field)
next
  case (3 sep x y ys)
  then have "paren_percent (x @ sep @ join sep (y # ys) @ u @ b) =
      paren_percent (join sep (y # ys) @ u @ b)"
    by (intro paren_percent_field) simp_all
  with 3 show ?case by simp
qed

lemma plain_details: "plain_component c \<Longrightarrow> list_all (\<lambda>f. \<not> paren_percent f) (comp_details c)"
  by (cases "comp_origin c"; cases "comp_process c"; cases "comp_variety c")
     (auto simp: plain_component_def comp_details_def)

lemma paren_percent_comp_line:
  assumes "plain_component c"
  shows "paren_percent (comp_line i c @ b) = paren_percent b"
proof -
  have "paren_percent (comp_line i c @ b) =
      paren_percent ((asc ''  '' @ dec (i + 1) @ asc ''. '' @ show_int (percentage c) @ asc ''% '') @
        join (asc '' | '') (comp_details c) @ [10] @ b)"
    by (simp add: comp_line_def)
  also have "\<dots> = paren_percent (join (asc '' | '') (comp_details c) @ [10] @ b)"
    by (intro paren_percent_skip) (simp add: asc_def no_paren_dec no_paren_show_int)
  also have "\<dots> = paren_percent b"
    using plain_details [OF assms]
    by (intro paren_percent_join) (simp_all add: asc_def breaker_def is_digit_def)
  finally show ?thesis .
qed

lemma paren_percent_comp_lines:
  "list_all plain_component cs \<Longrightarrow> paren_percent (comp_lines i cs @ b) = paren_percent b"
  by (induction cs arbitrary: i) (simp_all add: paren_percent_comp_line)

lemma bean_text_parts:
  assumes "blendComponents bean = Some comps" and "comps \<noteq> []"
  shows "beanToReadableText bean =
           (bean_head bean @ [10]) @ w_blend @ bean_tail comps (bean_notes bean)"
  using assms by (simp add: beanToReadableText_def bean_head_def bean_tail_def)

lemma includes_skip:
  assumes "w \<noteq> []" and "hd w \<notin> set a"
  shows "includes_str (a @ b) w = includes_str b w"
  using assms(2)
proof (induction a)
  case Nil
  show ?case by simp
next
  case (Cons x a)
  from assms(1) Cons.prems have "\<not> prefix w (x # a @ b)"
    by (cases w) (auto simp: prefix_Cons)
  with Cons show ?case by simp
qed

lemma includes_field:
  assumes "w \<noteq> []" and "\<not> includes_str f w" and "u \<noteq> []" and "hd u \<notin> set w"
    and "hd w \<notin> set u"
  shows "includes_str (f @ u @ b) w = includes_str b w"
proof -
  from assms(3) obtain c u' where u: "u = c # u'" by (cases u) auto
  with assms(4,5) have c: "c \<notin> set w" "hd w \<notin> set (c # u')" by simp_all
  have "includes_str (f @ c # u' @ b) w = includes_str (c # u' @ b) w"
    using assms(2)
  proof (induction f)
    case Nil
    show ?case by simp
  next
    case (Cons x f)
    from no_straddle [OF Cons.prems c(1)] have "\<not> prefix w ((x # f) @ c # u' @ b)" .
    moreover from Cons.prems have "\<not> includes_str f w" by simp
    ultimately show ?case using Cons.IH by simp
  qed
  also have "\<dots> = includes_str ((c # u') @ b) w" by simp
  also have "\<dots> = includes_str b w"
    using assms(1) c(2) by (rule includes_skip)
  finally show ?thesis by (simp add: u)
qed

lemma scan_join:
  assumes field: "\<And>f u b. \<not> P f \<Longrightarrow> separator u \<Longrightarrow> P (f @ u @ b) = P b"
    and skip: "\<And>a b. literal a \<Longrightarrow> P (a @ b) = P b"
    and "list_all (\<lambda>f. \<not> P f) fs" and "separator sep" and "separator u"
  shows "P (join sep fs @ u @ b) = P b"
  using assms(3,4)
proof (induction sep fs rule: join.induct)
  case (1 sep)
  from assms(5) show ?case by (simp add: skip separator_def)
next
  case (2 sep x)
  with assms(5) show ?case by (simp add: field)
next
  case (3 sep x y ys)
  then have "P (x @ sep @ join sep (y # ys) @ u @ b) = P (join sep (y # ys) @ u @ b)"
    by (intro field) simp_all
  with 3 show ?case by simp
qed

lemma scan_opt_line:
  assumes field: "\<And>f u b. \<not> P f \<Longrightarrow> separator u \<Longrightarrow> P (f @ u @ b) = P b"
    and skip: "\<And>a b. literal a \<Longrightarrow> P (a @ b) = P b"
    and "list_all (\<lambda>f. \<not> P f) (opt_text v)" and "literal (l @ asc '': '')"
    and "separator (u @ [10])"
  shows "P (opt_line l v u @ b) = P b"
proof (cases v)
  case None
  then show ?thesis by (simp add: opt_line_def)
next
  case (Some s)
  show ?thesis
  proof (cases "s = []")
    case True
    with Some show ?thesis by (simp add: opt_line_def)
  next
    case False
    have "P (opt_line l v u @ b) = P ((l @ asc '': '') @ s @ (u @ [10]) @ b)"
      using Some False by (simp add: opt_line_def)
    also have "\<dots> = P (s @ (u @ [10]) @ b)"
      using assms(4) by (rule skip)
    also have "\<dots> = P b"
      using assms(3,5) Some by (intro field) simp_all
    finally show ?thesis .
  qed
qed

lemma separators:
  "separator [10]" "separator (asc ''g'')" "separator (asc ''g)'')" "separator (w_yuan @ [10])"
  "separator (asc '', '')" "separator (asc '' | '')" "separator ([] @ [10])"
  by (simp_all add: separator_def literal_def breaker_def is_digit_def asc_def w_blend_def
      w_yuan_def)

lemma literals:
  "literal hdr_bean" "literal (w_capacity @ asc '': '')" "literal ([10] @ w_roast @ asc '': '')"
  "literal w_unknown" "literal (w_roastDate @ asc '': '')" "literal (w_origin @ asc '': '')"
  "literal (w_process @ asc '': '')" "literal (w_variety @ asc '': '')"
  "literal (w_type @ asc '': '')" "literal (w_price @ asc '': '')"
  "literal (w_flavor @ asc '': '')"
  by (simp_all add: literal_def bean_words asc_def)

lemma scan_head:
  assumes field: "\<And>f u b. \<not> P f \<Longrightarrow> separator u \<Longrightarrow> P (f @ u @ b) = P b"
    and skip: "\<And>a b. literal a \<Longrightarrow> P (a @ b) = P b"
    and rem: "\<And>b. P (asc '' ('' @ w_remaining @ b) = P b"
    and fields: "list_all (\<lambda>f. \<not> P f) (head_fields bean)"
  shows "P (bean_head bean @ b) = P b"
proof -
  define T6 where "T6 =
     (case flavor bean of
        None \<Rightarrow> []
      | Some fs \<Rightarrow>
          if fs \<noteq> [] then w_flavor @ asc '': '' @ join (asc '', '') fs @ [10] else []) @ b"
  define T5 where "T5 =
     opt_line w_roastDate (roastDate bean) [] @
     opt_line w_origin (origin bean) [] @
     opt_line w_process (process bean) [] @
     opt_line w_variety (variety bean) [] @
     opt_line w_type (bean_type bean) [] @
     opt_line w_price (price bean) w_yuan @ T6"
  define T4 where "T4 =
     (if truthy_str (roastLevel bean) then the (roastLevel bean) else w_unknown) @ [10] @ T5"
  define T3 where "T3 =
     (if remaining bean \<noteq> capacity bean
      then asc '' ('' @ w_remaining @ remaining bean @ asc ''g)'' else []) @
     ([10] @ w_roast @ asc '': '') @ T4"
  have tx: "bean_head bean @ b =
      hdr_bean @ bean_name bean @ [10] @ (w_capacity @ asc '': '') @ capacity bean @ asc ''g'' @ T3"
    by (simp add: bean_head_def T3_def T4_def T5_def T6_def)
  from fields have f: "\<not> P (bean_name bean)" "\<not> P (capacity bean)"
    "remaining bean \<noteq> capacity bean \<Longrightarrow> \<not> P (remaining bean)"
    "list_all (\<lambda>f. \<not> P f) (opt_text (roastLevel bean))"
    "list_all (\<lambda>f. \<not> P f) (opt_text (roastDate bean))"
    "list_all (\<lambda>f. \<not> P f) (opt_text (origin bean))"
    "list_all (\<lambda>f. \<not> P f) (opt_text (process bean))"
    "list_all (\<lambda>f. \<not> P f) (opt_text (variety bean))"
    "list_all (\<lambda>f. \<not> P f) (opt_text (bean_type bean))"
    "list_all (\<lambda>f. \<not> P f) (opt_text (price bean))"
    by (simp_all add: head_fields_def)
  have 6: "P T6 = P b"
  proof (cases "flavor bean")
    case None
    then show ?thesis by (simp add: T6_def)
  next
    case (Some fs)
    show ?thesis
    proof (cases "fs = []")
      case True
      with Some show ?thesis by (simp add: T6_def)
    next
      case False
      from fields Some have pf: "list_all (\<lambda>f. \<not> P f) fs"
        by (simp add: head_fields_def)
      from Some False have "P T6 = P ((w_flavor @ asc '': '') @ join (asc '', '') fs @ [10] @ b)"
        by (simp add: T6_def)
      also have "\<dots> = P (join (asc '', '') fs @ [10] @ b)"
        using literals(11) by (rule skip)
      also have "\<dots> = P b"
        using field skip pf separators(5) separators(1) by (rule scan_join)
      finally show ?thesis .
    qed
  qed
  have ol: "P (opt_line l v u @ c) = P c"
    if "list_all (\<lambda>f. \<not> P f) (opt_text v)" "literal (l @ asc '': '')" "separator (u @ [10])"
    for l v u c
    using field skip that by (rule scan_opt_line)
  have "P T5 = P (opt_line w_origin (origin bean) [] @
     opt_line w_process (process bean) [] @
     opt_line w_variety (variety bean) [] @
     opt_line w_type (bean_type bean) [] @
     opt_line w_price (price bean) w_yuan @ T6)"
    unfolding T5_def using f(5) literals(5) separators(7) by (rule ol)
  also have "\<dots> = P (opt_line w_process (process bean) [] @
     opt_line w_variety (variety bean) [] @
     opt_line w_type (bean_type bean) [] @
     opt_line w_price (price bean) w_yuan @ T6)"
    using f(6) literals(6) separators(7) by (rule ol)
  also have "\<dots> = P (opt_line w_variety (variety bean) [] @
     opt_line w_type (bean_type bean) [] @
     opt_line w_price (price bean) w_yuan @ T6)"
    using f(7) literals(7) separators(7) by (rule ol)
  also have "\<dots> = P (opt_line w_type (bean_type bean) [] @
     opt_line w_price (price bean) w_yuan @ T6)"
    using f(8) literals(8) separators(7) by (rule ol)
  also have "\<dots> = P (opt_line w_price (price bean) w_yuan @ T6)"
    using f(9) literals(9) separators(7) by (rule ol)
  also have "\<dots> = P T6"
    using f(10) literals(10) separators(4) by (rule ol)
  finally have 5: "P T5 = P T6" .
  have 4: "P T4 = P T5"
  proof (cases "truthy_str (roastLevel bean)")
    case True
    then obtain s where s: "roastLevel bean = Some s" by (cases "roastLevel bean") auto
    with f(4) have "P (s @ [10] @ T5) = P T5"
      using separators(1) by (intro field) simp_all
    with True s show ?thesis by (simp add: T4_def)
  next
    case False
    have "P (w_unknown @ [10] @ T5) = P ([10] @ T5)"
      using literals(4) by (rule skip)
    also have "\<dots> = P T5"
      by (rule skip) (simp add: literal_def w_blend_def)
    finally show ?thesis using False by (simp add: T4_def)
  qed
  have 3: "P T3 = P T4"
  proof (cases "remaining bean = capacity bean")
    case True
    have "P (([10] @ w_roast @ asc '': '') @ T4) = P T4"
      using literals(3) by (rule skip)
    with True show ?thesis by (simp add: T3_def)
  next
    case False
    let ?rest = "([10] @ w_roast @ asc '': '') @ T4"
    from False have "P T3 = P (asc '' ('' @ w_remaining @ remaining bean @ asc ''g)'' @ ?rest)"
      by (simp add: T3_def)
    also have "\<dots> = P (remaining bean @ asc ''g)'' @ ?rest)"
      by (rule rem)
    also have "\<dots> = P ?rest"
      using f(3) [OF False] separators(3) by (rule field)
    also have "\<dots> = P T4"
      using literals(3) by (rule skip)
    finally show ?thesis .
  qed
  have "P (bean_head bean @ b) =
      P (bean_name bean @ [10] @ (w_capacity @ asc '': '') @ capacity bean @ asc ''g'' @ T3)"
    unfolding tx using literals(1) by (rule skip)
  also have "\<dots> = P ((w_capacity @ asc '': '') @ capacity bean @ asc ''g'' @ T3)"
    using f(1) separators(1) by (rule field)
  also have "\<dots> = P (capacity bean @ asc ''g'' @ T3)"
    using literals(2) by (rule skip)
  also have "\<dots> = P T3"
    using f(2) separators(2) by (rule field)
  finally show ?thesis
    using 3 4 5 6 by simp
qed

lemma head_no_percent:
  assumes "list_all (\<lambda>f. \<not> paren_percent f) (head_fields bean)"
  shows "paren_percent (bean_head bean @ b) = paren_percent b"
proof (rule scan_head [where P = paren_percent, OF _ _ _ assms])
  show "paren_percent (f @ u @ c) = paren_percent c" if "\<not> paren_percent f" "separator u" for f u c
    using that by (intro paren_percent_field) (simp_all add: separator_def literal_def)
  show "paren_percent (a @ c) = paren_percent c" if "literal a" for a c
    using that by (intro paren_percent_skip) (simp add: literal_def)
  show "paren_percent (asc '' ('' @ w_remaining @ c) = paren_percent c" for c
    by (simp add: asc_def w_remaining_def is_digit_def)
qed

lemma head_no_marker:
  assumes "list_all (\<lambda>f. \<not> includes_str f w_blend) (head_fields bean)"
  shows "\<not> includes_str (bean_head bean @ [10]) w_blend"
proof -
  have w: "w_blend \<noteq> []" by (simp add: w_blend_def)
  have "includes_str (bean_head bean @ [10]) w_blend = includes_str [10] w_blend"
  proof (rule scan_head [where P = "\<lambda>s. includes_str s w_blend", OF _ _ _ assms])
    show "includes_str (f @ u @ c) w_blend = includes_str c w_blend"
      if "\<not> includes_str f w_blend" "separator u" for f u c
      using w that by (intro includes_field) (simp_all add: separator_def literal_def)
    show "includes_str (a @ c) w_blend = includes_str c w_blend" if "literal a" for a c
      using w that by (intro includes_skip) (simp_all add: literal_def)
    show "includes_str (asc '' ('' @ w_remaining @ c) w_blend = includes_str c w_blend" for c
    proof -
      have "includes_str ((asc '' ('' @ w_remaining) @ c) w_blend = includes_str c w_blend"
        using w by (rule includes_skip) (simp add: w_blend_def w_remaining_def asc_def)
      then show ?thesis by simp
    qed
  qed
  then show ?thesis by (simp add: w_blend_def)
qed

lemma tail_no_percent:
  assumes "list_all plain_component comps" and "plain_opt nts"
  shows "\<not> paren_percent (bean_tail comps nts)"
proof -
  define T9 where "T9 = [10] @ footer_above @ [10, 10] @ marker_bean"
  define T8 where "T8 =
     (case nts of
        None \<Rightarrow> []
      | Some n \<Rightarrow> if n \<noteq> [] then [10] @ w_notes @ asc '': '' @ n @ [10] else []) @ T9"
  have nl: "[10] \<noteq> []" "breaker (hd [10])" "40 \<notin> set [10::nat]"
    by (simp_all add: breaker_def is_digit_def)
  have 9: "\<not> paren_percent T9"
    by (rule no_paren_percent) (simp add: T9_def bean_words asc_def)
  have 8: "paren_percent T8 = paren_percent T9"
  proof (cases nts)
    case None
    then show ?thesis by (simp add: T8_def)
  next
    case (Some n)
    show ?thesis
    proof (cases "n = []")
      case True
      with Some show ?thesis by (simp add: T8_def)
    next
      case False
      with Some have "paren_percent T8 =
          paren_percent (([10] @ w_notes @ asc '': '') @ n @ [10] @ T9)"
        by (simp add: T8_def)
      also have "\<dots> = paren_percent (n @ [10] @ T9)"
        by (rule paren_percent_skip) (simp add: w_notes_def asc_def)
      also have "\<dots> = paren_percent T9"
        using assms(2) Some nl by (intro paren_percent_field) simp_all
      finally show ?thesis .
    qed
  qed
  have "paren_percent (bean_tail comps nts) = paren_percent ([10] @ comp_lines 0 comps @ T8)"
    by (simp add: bean_tail_def T8_def T9_def)
  also have "\<dots> = paren_percent (comp_lines 0 comps @ T8)"
    by (rule paren_percent_skip) simp
  also have "\<dots> = paren_percent T8"
    using assms(1) by (rule paren_percent_comp_lines)
  finally show ?thesis using 8 9 by simp
qed

section \<open>What a match consumes, and the steps found in any text\<close>

text \<open>
  A match consumes, atom by atom, texts the atoms accept, and the texts consumed are a
  piece of the input (\<open>matchAt_chunks\<close>, \<open>search_chunks\<close>). So in any text whatever, a stage
  that \<^verbatim>\<open>parseMethodText\<close> returns has the pour time of a header
  \<^verbatim>\<open>[<minutes><min><seconds><sec>]\<close> that stands in the text (\<open>pourTime_sound\<close>).
\<close>

lemma lazy_star_class: "lazy_star c k s = Some (m, r) \<Longrightarrow> list_all (in_cls c) m"
proof (induction s arbitrary: m)
  case Nil
  then show ?case by auto
next
  case (Cons x xs)
  show ?case
  proof (cases "k (x # xs)")
    case (Some r')
    with Cons.prems show ?thesis by simp
  next
    case None
    with Cons.prems obtain m' where m': "lazy_star c k xs = Some (m', r)" "m = x # m'" "in_cls c x"
      by (auto split: option.splits if_splits)
    with Cons.IH [of m'] show ?thesis by simp
  qed
qed

lemma match_atom_chunk:
  assumes "match_atom a k s = Some m"
  shows "\<exists>c m' t. m = c # m' \<and> s = c @ t \<and> k t = Some m' \<and> chunk_ok a c"
proof (cases a)
  case (Lit l)
  with assms have p: "prefix l s" by (simp split: if_splits)
  with assms Lit obtain m' where m': "k (drop (length l) s) = Some m'" "m = l # m'"
    by auto
  from p have "s = l @ drop (length l) s"
    by (auto simp: prefix_def)
  with m' Lit show ?thesis by auto
next
  case (Star c)
  with assms obtain ch r where h: "greedy_star c k s = Some (ch, r)" "m = ch # r" by auto
  from greedy_star_consumes [OF h(1)] greedy_star_class [OF h(1)] h(2) Star show ?thesis
    by auto
next
  case (Plus c)
  with assms obtain ch r where h: "greedy_plus c k s = Some (ch, r)" "m = ch # r" by auto
  from greedy_plus_consumes [OF h(1)] greedy_plus_class [OF h(1)] h(2) Plus show ?thesis
    by auto
next
  case (LazyStar c)
  with assms obtain ch r where h: "lazy_star c k s = Some (ch, r)" "m = ch # r" by auto
  from lazy_star_consumes [OF h(1)] lazy_star_class [OF h(1)] h(2) LazyStar show ?thesis
    by auto
next
  case NlOrEnd
  with match_atom_consumes [OF assms] assms show ?thesis
    by (cases s) (auto split: if_splits)
qed

lemma matchAt_chunks:
  "matchAt r s = Some m \<Longrightarrow> list_all2 chunk_ok r m \<and> prefix (concat m) s"
proof (induction r arbitrary: s m)
  case Nil
  then show ?case by simp
next
  case (Cons a r)
  from Cons.prems have "match_atom a (matchAt r) s = Some m" by simp
  from match_atom_chunk [OF this] obtain c m' t where
    h: "m = c # m'" "s = c @ t" "matchAt r t = Some m'" "chunk_ok a c"
    by blast
  from Cons.IH [OF h(3)] h show ?case by simp
qed

lemma search_chunks:
  assumes "search r s = Some m"
  shows "list_all2 chunk_ok r m \<and> includes_str s (concat m)"
proof -
  from search_Some [OF assms] obtain pre t where t: "s = pre @ t" "matchAt r t = Some m"
    by blast
  from matchAt_chunks [OF t(2)] obtain post where "list_all2 chunk_ok r m" "t = concat m @ post"
    by (auto simp: prefix_def)
  with t(1) show ?thesis
    by (simp add: includes_str_append)
qed

lemma includes_str_trans:
  assumes "includes_str b a" and "includes_str c b"
  shows "includes_str c a"
proof -
  from assms obtain p1 s1 p2 s2 where "b = p1 @ a @ s1" "c = p2 @ b @ s2"
    by (auto simp: includes_str_sublist sublist_def)
  then have "c = (p2 @ p1) @ a @ (s1 @ s2)" by simp
  then show ?thesis by (simp only: includes_str_append)
qed

lemma includes_prefix: "prefix a s \<Longrightarrow> includes_str s a"
  by (auto simp: prefix_def includes_str_sublist)

lemma includes_suffix: "suffix a s \<Longrightarrow> includes_str s a"
  by (auto simp: suffix_def includes_str_sublist)

lemma split_str_within:
  "sep \<noteq> [] \<Longrightarrow> x \<in> set (split_str sep s) \<Longrightarrow> includes_str s x"
proof (induction sep s rule: split_str.induct)
  case (1 sep s)
  show ?case
  proof (cases "cut sep s")
    case None
    with "1.prems"(1) have "split_str sep s = [s]"
      by (subst split_str.simps) simp
    with "1.prems" have "x = s" by simp
    then show ?thesis by (simp add: includes_str_sublist)
  next
    case (Some ba)
    obtain b a where ba: "ba = (b, a)" by (cases ba)
    with Some have s: "s = b @ sep @ a" by (auto dest: cut_Some)
    from Some ba "1.prems"(1) have "split_str sep s = b # split_str sep a"
      by (subst split_str.simps) simp
    with "1.prems" have "x = b \<or> x \<in> set (split_str sep a)" by simp
    then show ?thesis
    proof
      assume "x = b"
      with s have "s = [] @ x @ (sep @ a)" by simp
      then show ?thesis by (simp only: includes_str_append)
    next
      assume "x \<in> set (split_str sep a)"
      with "1.IH" "1.prems"(1) Some ba have "includes_str a x"
        by simp
      moreover have "s = (b @ sep) @ a @ []" by (simp add: s)
      then have "includes_str s a" by (simp only: includes_str_append)
      ultimately show ?thesis by (rule includes_str_trans)
    qed
  qed
qed

lemma stage_line_within:
  assumes "line \<in> set (stageLines text)"
  shows "includes_str text line"
proof -
  let ?sec = "first_piece (asc ''\<newline>---'') (second_piece w_steps text)"
  from assms have "line \<in> set (split_str [10] ?sec)"
    by (simp add: stageLines_def)
  then have 1: "includes_str ?sec line"
    by (intro split_str_within) simp_all
  have 2: "includes_str (second_piece w_steps text) ?sec"
    by (intro includes_prefix first_piece_prefix)
  have "w_steps \<noteq> []" by (simp add: w_steps_def)
  from second_piece_within [OF this, of "text"] obtain a where
    "suffix a text" "prefix (second_piece w_steps text) a"
    by blast
  then have 3: "includes_str text (second_piece w_steps text)"
    using includes_prefix includes_suffix includes_str_trans by blast
  from 1 2 3 show ?thesis
    using includes_str_trans by blast
qed

lemma header_digits:
  assumes "stage_header line = Some (m, s, l, w)"
  shows "\<exists>mi se. digits mi \<and> digits se \<and> m = parseInt mi \<and> s = parseInt se \<and>
           includes_str line (asc ''['' @ mi @ w_minutes @ se @ w_seconds @ asc '']'')"
proof -
  from assms obtain cs where cs: "search re_stage line = Some cs"
    by (cases "search re_stage line") (auto simp: stage_header_def split: if_splits)
  from search_length [OF this] have "length cs = 15"
    by (simp add: re_stage_def)
  then obtain c0 c1 c2 c3 mi c5 se c7 tc where
    c: "cs = c0 # c1 # c2 # c3 # mi # c5 # se # c7 # tc" and "length tc = 7"
    by (auto simp: length_Suc_conv numeral_eq_Suc)
  then obtain d1 d2 d3 d4 d5 d6 d7 where tc: "tc = [d1, d2, d3, d4, d5, d6, d7]"
    using list7 by blast
  from assms cs c tc have ms: "m = parseInt mi" "s = parseInt se"
    by (auto simp: stage_header_def split: if_splits)
  from search_chunks [OF cs] have
    ok: "list_all2 chunk_ok re_stage cs" and inc: "includes_str line (concat cs)"
    by simp_all
  from ok c tc have ch: "c3 = asc ''[''" "digits mi" "c5 = w_minutes" "digits se"
    "c7 = w_seconds @ asc '']''"
    by (simp_all add: re_stage_def digits_def list_all_iff)
  have "concat cs = (c0 @ c1 @ c2) @ (asc ''['' @ mi @ w_minutes @ se @ w_seconds @ asc '']'') @
      concat tc"
    by (simp add: c ch)
  then have "includes_str (concat cs) (asc ''['' @ mi @ w_minutes @ se @ w_seconds @ asc '']'')"
    by (simp only: includes_str_append)
  with inc have "includes_str line (asc ''['' @ mi @ w_minutes @ se @ w_seconds @ asc '']'')"
    by (rule includes_str_trans [rotated])
  with ms ch(2,4) show ?thesis by blast
qed

lemma pourTime_sound:
  assumes "st \<in> set (stages (params (parseMethodText now text)))"
  shows "\<exists>mi se. digits mi \<and> digits se \<and>
           includes_str text (asc ''['' @ mi @ w_minutes @ se @ w_seconds @ asc '']'') \<and>
           pourTime st = enat (nat (min 20 \<lceil>real (60 * digits_value mi + digits_value se) * 0.25\<rceil>))"
proof -
  from assms have "st \<in> set (parse_stage_lines (stageLines text))"
    by (auto simp: parseMethodText_def parse_stages_def split: if_splits)
  from stage_lines_sound [OF this] obtain line rest m s l w where
    h: "line \<in> set (stageLines text)" "stage_header line = Some (m, s, l, w)"
      "st = make_stage m s l w rest"
    by blast
  from header_digits [OF h(2)] obtain mi se where
    d: "digits mi" "digits se" "m = parseInt mi" "s = parseInt se"
      "includes_str line (asc ''['' @ mi @ w_minutes @ se @ w_seconds @ asc '']'')"
    by blast
  from d(5) stage_line_within [OF h(1)]
  have "includes_str text (asc ''['' @ mi @ w_minutes @ se @ w_seconds @ asc '']'')"
    by (rule includes_str_trans)
  moreover from h(3) d(3,4) have
    "pourTime st = enat (nat (min 20 \<lceil>real (60 * digits_value mi + digits_value se) * 0.25\<rceil>))"
    by (simp add: make_stage_def Let_def parseInt_def pourTime_exact)
  ultimately show ?thesis using d(1,2) by blast
qed
section \<open>Claims about the coffee bean format\<close>

subsection \<open>C9: blend components after a round trip\<close>

lemmas bean_format_defs =
  beanToReadableText_def blend_bean_def opt_line_def comp_line_def comp_details_def
  show_int_def dec.simps asc_def

lemmas bean_parse_defs =
  parseCoffeeBeanText_def parse_blendComponents_def blendSection_def first_piece_def
  second_piece_def split_str.simps parse_component_def re_component_def bean_words
  is_ws_def is_digit_def is_line_terminator_def trim_def parseInt_def digits_value_def
  to_double_def numeral_eq_enat

text \<open>
  C9, as stated, fails: the claim says that for every bean with a non-empty list of blend
  components the parser returns an empty list after formatting. A component whose origin
  is the text \<^verbatim>\<open>A (50%)\<close> is written as the line \<^verbatim>\<open>  1. 60% A (50%)\<close>, which has the
  shape the parser accepts: it comes back as one component named \<^verbatim>\<open>60% A\<close> with 50 percent.
\<close>

theorem blend_roundtrip_counterexample:
  "blendComponents (parseCoffeeBeanText (beanToReadableText (blend_bean (Some (asc ''A (50%)''))))) =
     Some [\<lparr>comp_name = asc ''60% A'', percentage = 50, comp_origin = None,
            comp_process = None, comp_variety = None\<rparr>]"
  by (simp add: bean_format_defs bean_parse_defs)

text \<open>
  C9, amended: for every coffee bean with a non-empty list of blend components,
  \<^verbatim>\<open>parseCoffeeBeanText(beanToReadableText(bean))\<close> returns the empty list of blend
  components, provided that no origin, process or variety of a component and not the
  notes contain a parenthesised percentage (an opening parenthesis followed by one or
  more digits and \<^verbatim>\<open>%)\<close>), and that the fields written before the blend section contain
  no parenthesised percentage either or, failing that, do not contain the marker of the
  blend section. The formatter writes a component as index, percentage and details; the
  parser needs a parenthesised percentage after the name, and the formatter writes none
  of its own: its only parenthesis is that of the remaining amount, and what follows
  each field cannot continue a percentage begun in the field. Other parentheses in the
  fields do no harm, and a parenthesised percentage before the blend section does none
  as long as the section starts at the formatter's marker.
\<close>

theorem blend_roundtrip_empty:
  assumes comps: "blendComponents bean = Some comps" "comps \<noteq> []"
    and blend: "list_all plain_component comps" "plain_opt (bean_notes bean)"
    and head: "list_all (\<lambda>f. \<not> paren_percent f) (head_fields bean) \<or>
               list_all (\<lambda>f. \<not> includes_str f w_blend) (head_fields bean)"
  shows "blendComponents (parseCoffeeBeanText (beanToReadableText bean)) = Some []"
proof -
  let ?text = "beanToReadableText bean"
  let ?tail = "bean_tail comps (bean_notes bean)"
  have tx: "?text = (bean_head bean @ [10]) @ w_blend @ ?tail"
    using comps by (rule bean_text_parts)
  then have inc: "includes_str ?text w_blend"
    by (simp only: includes_str_append)
  have w: "w_blend \<noteq> []" "distinct w_blend" by (simp_all add: w_blend_def)
  have tail: "\<not> paren_percent ?tail"
    using blend by (rule tail_no_percent)
  have "matchAll re_component 0 (blendSection ?text) = []"
  proof (rule ccontr)
    assume "matchAll re_component 0 (blendSection ?text) \<noteq> []"
    then obtain t m where t: "suffix t (blendSection ?text)" "matchAt re_component t = Some m"
      using matchAll_suffix by blast
    from t(2) have "paren_percent t" by (rule component_match_percent)
    with t(1) have "paren_percent (blendSection ?text)" by (rule paren_percent_suffix)
    then have sec: "paren_percent (second_piece w_blend ?text)"
      unfolding blendSection_def using first_piece_prefix paren_percent_prefix by blast
    from head show False
    proof
      assume "list_all (\<lambda>f. \<not> paren_percent f) (head_fields bean)"
      then have "paren_percent ?text = paren_percent ([10] @ w_blend @ ?tail)"
        unfolding tx by (simp add: head_no_percent)
      also have "\<dots> = paren_percent (([10] @ w_blend) @ ?tail)" by simp
      also have "\<dots> = paren_percent ?tail"
        by (rule paren_percent_skip) (simp add: w_blend_def)
      finally have "\<not> paren_percent ?text" using tail by simp
      moreover from sec have "paren_percent ?text"
        using second_piece_within [OF w(1), of ?text] paren_percent_prefix paren_percent_suffix
        by blast
      ultimately show False by simp
    next
      assume "list_all (\<lambda>f. \<not> includes_str f w_blend) (head_fields bean)"
      then have "\<not> includes_str (bean_head bean @ [10]) w_blend"
        by (rule head_no_marker)
      with w have "cut w_blend ?text = Some (bean_head bean @ [10], ?tail)"
        unfolding tx by (rule cut_first)
      with w(1) have "split_str w_blend ?text = (bean_head bean @ [10]) # split_str w_blend ?tail"
        by (subst split_str.simps) simp
      then have "second_piece w_blend ?text = first_piece w_blend ?tail"
        by (simp add: second_piece_def first_piece_def split: list.splits)
      with sec have "paren_percent ?tail"
        using first_piece_prefix paren_percent_prefix by metis
      with tail show False by simp
    qed
  qed
  with inc show ?thesis
    by (simp add: parseCoffeeBeanText_def parse_blendComponents_def)
qed

theorem blend_roundtrip_empty_witness:
  "blendComponents parenthesised_bean \<noteq> None \<and>
   the (blendComponents parenthesised_bean) \<noteq> [] \<and>
   list_all plain_component (the (blendComponents parenthesised_bean)) \<and>
   plain_opt (bean_notes parenthesised_bean) \<and>
   list_all (\<lambda>f. \<not> includes_str f w_blend) (head_fields parenthesised_bean) \<and>
   head_fields parenthesised_bean = [asc ''House (50%)'', asc ''200'', asc ''150''] \<and>
   map comp_origin (the (blendComponents parenthesised_bean)) = [Some (asc ''Kenya (AA)'')] \<and>
   bean_notes parenthesised_bean = Some (asc ''lot (2023)'') \<and>
   blendComponents (parseCoffeeBeanText (beanToReadableText parenthesised_bean)) = Some []"
proof -
  have c: "blendComponents parenthesised_bean =
      Some [\<lparr>comp_name = asc ''A'', percentage = 60, comp_origin = Some (asc ''Kenya (AA)''),
              comp_process = None, comp_variety = None\<rparr>]"
    by (simp add: parenthesised_bean_def blend_bean_def)
  have h: "head_fields parenthesised_bean = [asc ''House (50%)'', asc ''200'', asc ''150'']"
    by (simp add: parenthesised_bean_def blend_bean_def head_fields_def asc_def)
  have p: "list_all plain_component [\<lparr>comp_name = asc ''A'', percentage = 60::int,
      comp_origin = Some (asc ''Kenya (AA)''), comp_process = None, comp_variety = None\<rparr>]"
    "plain_opt (bean_notes parenthesised_bean)"
    by (simp_all add: parenthesised_bean_def blend_bean_def plain_component_def asc_def
        is_digit_def)
  have m: "list_all (\<lambda>f. \<not> includes_str f w_blend) (head_fields parenthesised_bean)"
    by (simp add: h) (simp add: asc_def w_blend_def)
  have n: "bean_notes parenthesised_bean = Some (asc ''lot (2023)'')"
    by (simp add: parenthesised_bean_def)
  from blend_roundtrip_empty [OF c _ p] m c p h n show ?thesis by simp
qed
subsection \<open>C10: the roast level placeholder\<close>

lemma roast_line_absent:
  "\<not> includes_str text (w_roast @ asc '':'') \<Longrightarrow> group_field w_roast text = None"
  by (simp add: group_field_def re_field_def search_no_label)

text \<open>
  C10, as stated, fails: the claim says that \<^verbatim>\<open>parseCoffeeBeanText\<close> never returns the
  placeholder as roast level. The parser compares the captured value with the
  placeholder before trimming it, so a roast level line whose placeholder is followed by
  a blank is stored, trimmed, as the placeholder itself.
\<close>

theorem roastLevel_placeholder_counterexample:
  "roastLevel (parseCoffeeBeanText (w_roast @ asc '': '' @ w_unknown @ asc '' '')) = Some w_unknown"
  by (simp add: parseCoffeeBeanText_def parse_roastLevel_def group_field_def re_field_def
      w_roast_def w_unknown_def asc_def is_ws_def is_line_terminator_def trim_def)

text \<open>The same happens on a text with the header of a bean, which the dispatcher routes to
  the bean parser.\<close>

lemma roastLevel_placeholder_routed:
  "extractJsonFromText example_platform
     (hdr_bean @ asc ''House\<newline>'' @ w_roast @ asc '': '' @ w_unknown @ asc '' '') =
     Bean (parseCoffeeBeanText
       (hdr_bean @ asc ''House\<newline>'' @ w_roast @ asc '': '' @ w_unknown @ asc '' '')) \<and>
   roastLevel (parseCoffeeBeanText
     (hdr_bean @ asc ''House\<newline>'' @ w_roast @ asc '': '' @ w_unknown @ asc '' '')) =
     Some w_unknown"
proof -
  let ?text = "hdr_bean @ asc ''House\<newline>'' @ w_roast @ asc '': '' @ w_unknown @ asc '' ''"
  have "JSON_parse example_platform ?text = None" "json_block ?text = None"
    "\<not> includes_str ?text marker_bean" "\<not> includes_str ?text marker_method"
    "\<not> includes_str ?text marker_note" "includes_str ?text hdr_bean"
    by (simp_all add: json_block_def re_json_data_def json_examples hdr_bean_def w_roast_def
        w_unknown_def marker_bean_def marker_method_def marker_note_def)
  then have "extractJsonFromText example_platform ?text = Bean (parseCoffeeBeanText ?text)"
    by (simp add: extractJsonFromText_def route_text_def)
  moreover have "roastLevel (parseCoffeeBeanText ?text) = Some w_unknown"
    by (simp add: parseCoffeeBeanText_def parse_roastLevel_def group_field_def re_field_def
        hdr_bean_def w_roast_def w_unknown_def asc_def is_ws_def is_line_terminator_def trim_def)
  ultimately show ?thesis by simp
qed

text \<open>
  C10, amended: for every input text, when the roast level pattern has no match (as when
  the text has no roast level label, \<open>roast_line_absent\<close>) or the value it captures is
  exactly the placeholder, the returned bean's roast level is the fixed default.
\<close>

theorem roastLevel_default:
  assumes "group_field w_roast text = None \<or> group_field w_roast text = Some w_unknown"
  shows "roastLevel (parseCoffeeBeanText text) = Some w_lightRoast"
  using assms by (auto simp: parseCoffeeBeanText_def parse_roastLevel_def)

theorem roastLevel_default_witness:
  "group_field w_roast (w_roast @ asc '': '' @ w_unknown @ [10]) = Some w_unknown \<and>
   roastLevel (parseCoffeeBeanText (w_roast @ asc '': '' @ w_unknown @ [10])) = Some w_lightRoast"
proof -
  have g: "group_field w_roast (w_roast @ asc '': '' @ w_unknown @ [10]) = Some w_unknown"
    by (simp add: group_field_def re_field_def w_roast_def w_unknown_def asc_def is_ws_def
        is_line_terminator_def)
  from roastLevel_default [of "w_roast @ asc '': '' @ w_unknown @ [10]"] g show ?thesis
    by simp
qed

section \<open>Claims about the method text format\<close>

lemma example_text:
  "methodToReadableText example_method =
     hdr_method @ asc ''V60\<newline>\<newline>'' @
     w_coffee @ asc '': 15g\<newline>'' @ w_water @ asc '': 225g\<newline>'' @ w_ratio @ asc '': 1:15\<newline>'' @
     w_grind @ asc '': medium\<newline>'' @ w_temp @ asc '': 92C\<newline>\<newline>'' @ w_steps @ asc ''\<newline>\<newline>'' @
     asc ''1. [0'' @ w_minutes @ asc ''30'' @ w_seconds @ asc ''] ('' @ w_pour @ asc ''10'' @
       w_seconds @ asc '') ['' @ w_pour_circle @ asc ''] Bloom - 30g\<newline>'' @
     asc ''   swirl gently\<newline>\<newline>'' @ footer_above @ asc ''\<newline>\<newline>'' @ marker_method"
  by (simp add: example_method_def method_format_defs method_words)

lemma example_lines:
  "stageLines (methodToReadableText example_method) =
     [asc ''1. [0'' @ w_minutes @ asc ''30'' @ w_seconds @ asc ''] ('' @ w_pour @ asc ''10'' @
        w_seconds @ asc '') ['' @ w_pour_circle @ asc ''] Bloom - 30g'',
      asc ''   swirl gently'']"
  by (simp add: example_method_def method_format_defs method_parse_defs method_words)

subsection \<open>C1: round trip of name and stages\<close>

text \<open>
  C1 says that parsing the formatted text of a method gives back its name and the
  (time, label, water) triples of its stages. On the example method, whose only stage is
  (30, \<^verbatim>\<open>Bloom\<close>, \<^verbatim>\<open>30g\<close>) with a pour time of 10 seconds and the pour type \<^verbatim>\<open>circle\<close>, the
  formatter writes the pour time and the pour type between the time and the label, and
  the parser's step pattern takes everything between the closing bracket of the time
  and the hyphen as the label: the label comes back with both annotations in front. The
  dispatcher routes the formatted text to \<^verbatim>\<open>parseMethodText\<close>; the name, the time and the
  water do come back.
\<close>

theorem roundtrip_label_annotated:
  "extractJsonFromText example_platform (methodToReadableText example_method) =
     Method (parseMethodText (Date_now example_platform) (methodToReadableText example_method)) \<and>
   method_name (parseMethodText 0 (methodToReadableText example_method)) = asc ''V60'' \<and>
   map (\<lambda>st. (time st, label st, stage_water st))
     (stages (params (parseMethodText 0 (methodToReadableText example_method)))) =
   [(30, asc ''('' @ w_pour @ asc ''10'' @ w_seconds @ asc '') ['' @ w_pour_circle @
         asc ''] Bloom'', asc ''30g'')] \<and>
   map (\<lambda>st. (time st, label st, stage_water st)) (stages (params example_method)) =
   [(30, asc ''Bloom'', asc ''30g'')]"
proof -
  let ?text = "methodToReadableText example_method"
  have "JSON_parse example_platform ?text = None" "json_block ?text = None"
    "\<not> includes_str ?text marker_bean" "includes_str ?text marker_method"
    by (simp_all add: json_block_def re_json_data_def json_examples example_method_def
        method_format_defs method_words marker_bean_def)
  then have "extractJsonFromText example_platform ?text =
      Method (parseMethodText (Date_now example_platform) ?text)"
    by (simp add: extractJsonFromText_def route_text_def)
  then show ?thesis
    by (simp add: example_method_def method_format_defs method_parse_defs method_words
        parse_method_name_def group_line_def re_line_def)
qed

subsection \<open>C3: the detail line of a step\<close>

lemma detail_never_set:
  assumes "st \<in> set (stages (params (parseMethodText now text)))"
  shows "detail st = []"
proof -
  from assms have "st \<in> set (parse_stage_lines (stageLines text))"
    by (auto simp: parseMethodText_def parse_stages_def split: if_splits)
  from stage_lines_sound [OF this] show ?thesis
    by (auto simp: make_stage_detail)
qed

text \<open>
  C3 says that an indented line after a step header is consumed as the detail of the
  step. The parser tests the next line after trimming it, and a trimmed line never
  starts with a blank (\<open>trim_not_indented\<close>), so no line is ever consumed and every stage
  has an empty detail (\<open>detail_never_set\<close>). On the formatted example method the step
  header is followed by the indented line \<^verbatim>\<open>   swirl gently\<close>, and the stage comes back with
  the empty detail.
\<close>

theorem detail_line_not_consumed:
  "stageLines (methodToReadableText example_method) =
     [asc ''1. [0'' @ w_minutes @ asc ''30'' @ w_seconds @ asc ''] ('' @ w_pour @ asc ''10'' @
        w_seconds @ asc '') ['' @ w_pour_circle @ asc ''] Bloom - 30g'',
      asc ''   swirl gently''] \<and>
   startsWith (asc ''   swirl gently'') (asc '' '') \<and>
   map detail (stages (params (parseMethodText 0 (methodToReadableText example_method)))) = [[]]"
  by (simp add: example_method_def method_format_defs method_parse_defs method_words)

subsection \<open>C7: the placeholder of an unset coffee amount\<close>

lemma coffee_line_found:
  assumes "\<not> includes_str name (w_coffee @ asc '':'')"
  shows "group_field w_coffee
      (hdr_method @ name @ [10, 10] @ w_coffee @ asc '': '' @ w_unset @ [10] @ rest) = Some w_unset"
proof -
  let ?l = "w_coffee @ asc '':''"
  let ?r = "[Star Space, LazyStar Dot, NlOrEnd]"
  let ?line = "w_coffee @ asc '': '' @ w_unset @ [10] @ rest"
  have "search (Lit ?l # ?r) (hdr_method @ name @ [10, 10] @ ?line) =
        search (Lit ?l # ?r) (name @ 10 # 10 # ?line)"
    using search_skip_char [of "0x5496" hdr_method]
    by (simp add: w_coffee_def hdr_method_def)
  also have "\<dots> = search (Lit ?l # ?r) (10 # 10 # ?line)"
    using assms by (rule search_skip_text) (simp add: w_coffee_def asc_def)
  also have "\<dots> = Some [?l, asc '' '', w_unset, [10]]"
    by (simp add: w_coffee_def w_unset_def asc_def is_ws_def is_line_terminator_def)
  finally show ?thesis
    by (simp add: group_field_def re_field_def)
qed

text \<open>
  C7, as stated, fails: the claim holds for no method whose name itself reads like a
  coffee line. The parser takes the first match of the coffee pattern in the whole
  text, and the name comes first: a method named \<^verbatim>\<open><coffee label>: 18g\<close> with an empty
  coffee amount is parsed back with the coffee amount \<^verbatim>\<open>18g\<close>.
\<close>

theorem unset_coffee_counterexample:
  "coffee (params label_in_name_method) = [] \<and>
   coffee (params (parseMethodText 0 (methodToReadableText label_in_name_method))) = asc ''18g''"
  by (simp add: label_in_name_method_def unset_coffee_method_def example_method_def
      method_format_defs method_words parseMethodText_def parse_param_def group_field_def
      re_field_def is_ws_def is_line_terminator_def trim_def)

text \<open>
  C7, amended: a method whose coffee amount is the empty string and whose name does not
  contain the coffee label with its colon is formatted with the parameter line
  \<^verbatim>\<open><coffee label>: <not set>\<close>; parsing the formatted text finds that line, captures the
  placeholder and leaves the coffee amount empty.
\<close>

theorem unset_coffee_roundtrip:
  assumes "coffee (params m) = []"
    and "\<not> includes_str (method_name m) (w_coffee @ asc '':'')"
  shows "(\<exists>pre post. methodToReadableText m =
            pre @ [10] @ w_coffee @ asc '': '' @ w_unset @ [10] @ post) \<and>
         group_field w_coffee (methodToReadableText m) = Some w_unset \<and>
         coffee (params (parseMethodText now (methodToReadableText m))) = []"
proof -
  define rest where "rest =
     param_line w_water (water (params m)) @
     param_line w_ratio (ratio (params m)) @
     param_line w_grind (grindSize (params m)) @
     param_line w_temp (temp (params m)) @
     (if stages (params m) \<noteq> []
      then [10] @ w_steps @ [10, 10] @ stages_text 0 (stages (params m)) else []) @
     footer_above @
     [10, 10] @ marker_method"
  have t: "methodToReadableText m =
      hdr_method @ method_name m @ [10, 10] @ w_coffee @ asc '': '' @ w_unset @ [10] @ rest"
    using assms(1) by (simp add: methodToReadableText_def param_line_def rest_def)
  then have "methodToReadableText m =
      (hdr_method @ method_name m @ [10]) @ [10] @ w_coffee @ asc '': '' @ w_unset @ [10] @ rest"
    by simp
  then have 1: "\<exists>pre post. methodToReadableText m =
            pre @ [10] @ w_coffee @ asc '': '' @ w_unset @ [10] @ post"
    by blast
  have 2: "group_field w_coffee (methodToReadableText m) = Some w_unset"
    unfolding t using assms(2) by (rule coffee_line_found)
  then have "coffee (params (parseMethodText now (methodToReadableText m))) = []"
    by (simp add: parseMethodText_def parse_param_def)
  with 1 2 show ?thesis by simp
qed

theorem unset_coffee_roundtrip_witness:
  "coffee (params unset_coffee_method) = [] \<and>
   \<not> includes_str (method_name unset_coffee_method) (w_coffee @ asc '':'') \<and>
   (\<exists>pre post. methodToReadableText unset_coffee_method =
            pre @ [10] @ w_coffee @ asc '': '' @ w_unset @ [10] @ post) \<and>
   group_field w_coffee (methodToReadableText unset_coffee_method) = Some w_unset \<and>
   coffee (params (parseMethodText 0 (methodToReadableText unset_coffee_method))) = []"
proof -
  have c: "coffee (params unset_coffee_method) = []"
    by (simp add: unset_coffee_method_def)
  have n: "\<not> includes_str (method_name unset_coffee_method) (w_coffee @ asc '':'')"
    by (simp add: unset_coffee_method_def example_method_def w_coffee_def asc_def)
  from unset_coffee_roundtrip [OF c n, of 0] c n show ?thesis by simp
qed

subsection \<open>C8: the reconstructed pour time\<close>

text \<open>
  The stage of a step depends on the line of the step alone, since no detail line is
  ever consumed (\<open>detail_line_None\<close>), and the numbers of the header are read by \<^verbatim>\<open>parseInt\<close>
  and added up in doubles. Below \<open>2\<^sup>5\<^sup>3\<close> the time of the stage is \<open>60 * minutes + seconds\<close>
  itself (\<open>step_time_exact\<close>); from there on it is rounded, as on the header
  \<^verbatim>\<open>[9007199254740993<min>0<sec>]\<close>, whose time comes out as 540431955284459520 and not as
  540431955284459580. The pour time is not touched by the rounding: a rounded time is
  \<open>2\<^sup>5\<^sup>2\<close> at least, and the pour time is 20 (\<open>pourTime_exact\<close>).
\<close>

lemma rounded_time_example:
  "make_stage (parseInt (asc ''9007199254740993'')) (parseInt (asc ''0'')) l w rest =
     \<lparr>time = 540431955284459520, pourTime = 20, label = l, stage_water = w, detail = [],
      pourType = infer_label (asc ''circle'') l\<rparr>"
  by (simp add: make_stage_def detail_line_None parseInt_def digits_value_def to_double_def
      dbl_times_def dbl_plus_def ceil_quarter_def numeral_eq_enat asc_def Let_def
      bit_length.simps)

lemma steps_method_text:
  "steps_pre @ w_steps @ section_text steps_lines @ steps_post =
     methodToReadableText steps_method"
  by (simp add: steps_pre_def steps_lines_def steps_post_def section_text_def steps_method_def
      example_method_def method_format_defs method_words)

lemma steps_method_parsed:
  "map (\<lambda>st. (time st, pourTime st))
     (stages (params (parseMethodText 0 (methodToReadableText steps_method)))) =
   [(30, 8), (60, 15), (125, 20)]"
  by (simp add: steps_method_def example_method_def method_format_defs method_parse_defs
      method_words)

text \<open>
  C8: \<^verbatim>\<open>parseMethodText\<close> returns one stage for each step of the step section, in the
  order of the steps, and the pour time of the stage is the smaller of 20 and \<open>t * 0.25\<close>
  rounded up, where \<open>t = 60 * minutes + seconds\<close> is read off the digits of the header of
  the step. The text is any text in which the step marker occurs once, followed by a
  section of lines that are steps, \<^verbatim>\<open><index>.<blanks>[<minutes><min><seconds><sec>]<rest>\<close>
  with a hyphen in the rest, or lines that do not start with a digit, up to the end of
  the text or to a line that starts with three hyphens: the shape of the formatter's
  output (\<open>steps_method_text\<close>), with any number of steps and any numbers in the headers.
  (In the other direction, and for any text whatever, \<open>pourTime_sound\<close> above: a returned
  stage has the pour time of a header that stands in the text.)
\<close>

theorem pourTime_of_steps:
  assumes "\<not> includes_str pre w_steps"
    and "\<not> includes_str (section_text ls @ post) w_steps"
    and "list_all line_ok ls"
    and "post = [] \<or> prefix (asc ''\<newline>---'') post"
  shows "map pourTime (stages (params (parseMethodText now (pre @ w_steps @ section_text ls @ post)))) =
         map (\<lambda>t. enat (nat (min 20 \<lceil>real t * 0.25\<rceil>))) (step_times ls)"
proof -
  let ?text = "pre @ w_steps @ section_text ls @ post"
  let ?f = "\<lambda>line. case stage_header line of
                    None \<Rightarrow> []
                  | Some (m, s, l, w) \<Rightarrow> [min 20 (ceil_quarter (dbl_plus (dbl_times m 60) s))]"
  let ?g = "\<lambda>t. enat (nat (min 20 \<lceil>real t * 0.25\<rceil>))"
  have "includes_str ?text w_steps" by (rule includes_str_append)
  then have "stages (params (parseMethodText now ?text)) = parse_stage_lines (stageLines ?text)"
    by (simp add: parseMethodText_def parse_stages_def)
  also have "stageLines ?text = filter (\<lambda>line. trim line \<noteq> []) (map line_text ls)"
    using assms by (rule stage_lines_section)
  finally have "map pourTime (stages (params (parseMethodText now ?text))) =
      concat (map ?f (filter (\<lambda>line. trim line \<noteq> []) (map line_text ls)))"
    by (simp only: parse_stage_lines_pourTime)
  also have "\<dots> = concat (map ?f (map line_text ls))"
  proof (rule concat_map_filter)
    fix x
    assume "x \<in> set (map line_text ls)" and blank: "\<not> trim x \<noteq> []"
    then obtain l where l: "l \<in> set ls" "x = line_text l" by auto
    with assms(3) have ok: "line_ok l" by (simp add: list_all_iff)
    show "?f x = []"
    proof (cases l)
      case (Step idx blanks mi se rest)
      with ok l(2) blank step_line_nonblank show ?thesis by blast
    next
      case (Other y)
      with ok l(2) other_header [of y] show ?thesis by simp
    qed
  qed
  also have "\<dots> = concat (map (\<lambda>l. map ?g (step_seconds l)) ls)"
    using assms(3) by (induction ls) (simp_all add: line_pourTime)
  also have "\<dots> = map ?g (step_times ls)"
    by (simp add: step_times_def map_concat comp_def)
  finally show ?thesis .
qed

theorem pourTime_of_steps_witness:
  "\<not> includes_str steps_pre w_steps \<and>
   \<not> includes_str (section_text steps_lines @ steps_post) w_steps \<and>
   list_all line_ok steps_lines \<and>
   prefix (asc ''\<newline>---'') steps_post \<and>
   steps_pre @ w_steps @ section_text steps_lines @ steps_post =
     methodToReadableText steps_method \<and>
   step_times steps_lines = [30, 60, 125] \<and>
   map pourTime (stages (params (parseMethodText 0 (methodToReadableText steps_method)))) =
     [8, 15, 20]"
proof -
  have 1: "\<not> includes_str steps_pre w_steps"
    by (simp add: steps_pre_def method_words asc_def)
  have 2: "\<not> includes_str (section_text steps_lines @ steps_post) w_steps"
    by (simp add: steps_lines_def steps_post_def section_text_def method_words asc_def)
  have 3: "list_all line_ok steps_lines"
    by (simp add: steps_lines_def digits_def method_words asc_def is_digit_def is_ws_def
        is_line_terminator_def)
  have 4: "prefix (asc ''\<newline>---'') steps_post"
    by (simp add: steps_post_def footer_above_def asc_def)
  have 5: "step_times steps_lines = [30, 60, 125]"
    by (simp add: step_times_def steps_lines_def digits_value_def asc_def)
  from pourTime_of_steps [OF 1 2 3, of 0] 4 5
  have "map pourTime (stages (params (parseMethodText 0
      (steps_pre @ w_steps @ section_text steps_lines @ steps_post)))) = [8, 15, 20]"
    by (simp add: numeral_eq_enat)
  with 1 2 3 4 5 steps_method_text show ?thesis by simp
qed
section \<open>Claims about the JSON import\<close>

lemma norm_pourType_cases:
  "norm_pourType v =
     (if v = Some (JStr (asc ''center'')) \<or> v = Some (JStr (asc ''circle'')) \<or>
         v = Some (JStr (asc ''ice'')) \<or> v = Some (JStr (asc ''other''))
      then the v else JStr (asc ''circle''))"
  by (cases v) (auto simp: norm_pourType_def or_else_def Let_def asc_def)

lemma norm_valveStatus_cases:
  "norm_valveStatus v =
     (if v = Some (JStr (asc ''open'')) \<or> v = Some (JStr (asc ''closed''))
      then the v else JStr [])"
proof (cases v)
  case None
  then show ?thesis by (simp add: norm_valveStatus_def or_else_def asc_def)
next
  case (Some x)
  then show ?thesis
    by (cases x) (auto simp: norm_valveStatus_def or_else_def Let_def asc_def)
qed

lemma norm_pourType_enum: "norm_pourType v \<in> pour_types"
  by (auto simp: norm_pourType_cases pour_types_def)

lemma norm_valveStatus_enum: "norm_valveStatus v \<in> valve_states"
  by (auto simp: norm_valveStatus_cases valve_states_def)

lemma parse_stage_fields:
  "parse_stage st = Some s \<Longrightarrow>
   j_pourType s = norm_pourType (get st (asc ''pourType'')) \<and>
   j_valveStatus s = norm_valveStatus (get st (asc ''valveStatus''))"
  by (auto simp: parse_stage_def split: if_splits)

lemma parse_stage_list_nth:
  "parse_stage_list sts = Some ss \<Longrightarrow>
   length ss = length sts \<and> (\<forall>i<length sts. parse_stage (sts ! i) = Some (ss ! i))"
proof (induction sts arbitrary: ss)
  case Nil
  then show ?case by simp
next
  case (Cons st sts)
  from Cons.prems obtain s ss' where
    s: "parse_stage st = Some s" "parse_stage_list sts = Some ss'" "ss = s # ss'"
    by (auto split: option.splits)
  from Cons.IH [OF s(2)] s show ?case
    by (auto simp: nth_Cons split: nat.splits)
qed

lemma parse_stage_list_None:
  "parse_stage_list sts = None \<longleftrightarrow> JNull \<in> set sts"
  by (induction sts) (auto simp: parse_stage_def split: option.splits)

lemma method_of_json_stages:
  assumes "method_of_json pf pd = Some m"
  shows "\<exists>sts. get_opt (get pd (asc ''params'')) (asc ''stages'') = Some (JArr sts) \<and>
           parse_stage_list sts = Some (j_stages m) \<and> sts \<noteq> []"
proof -
  from assms obtain ss where ss: "parse_json_stages (get pd (asc ''params'')) = Some ss"
      "ss \<noteq> []" "j_stages m = ss"
    by (auto simp: method_of_json_def Let_def split: if_splits option.splits)
  then obtain sts where "get_opt (get pd (asc ''params'')) (asc ''stages'') = Some (JArr sts)"
      "parse_stage_list sts = Some ss"
    by (auto simp: parse_json_stages_def split: option.splits json.splits)
  with ss show ?thesis by auto
qed

lemma parse_json_stages_None:
  "parse_json_stages pr = None \<longleftrightarrow>
     (\<exists>sts. get_opt pr (asc ''stages'') = Some (JArr sts) \<and> JNull \<in> set sts)"
  by (auto simp: parse_json_stages_def parse_stage_list_None split: option.splits json.splits)

lemma parse_stage_list_Nil: "parse_stage_list sts = Some [] \<longleftrightarrow> sts = []"
  by (cases sts) (auto split: option.splits)

lemma parse_json_stages_Nil:
  "parse_json_stages pr = Some [] \<longleftrightarrow>
     (\<forall>sts. get_opt pr (asc ''stages'') = Some (JArr sts) \<longrightarrow> sts = [])"
  by (auto simp: parse_json_stages_def parse_stage_list_Nil split: option.splits json.splits)

lemma method_of_json_None:
  "method_of_json pf pd = None \<longleftrightarrow>
     pd = JNull \<or>
     (\<not> truthy (get pd (asc ''method'')) \<and> \<not> truthy (get pd (asc ''equipment''))) \<or>
     (\<not> truthy (get pd (asc ''method'')) \<and>
      to_string (Number_toString pf) (the (get pd (asc ''equipment''))) = None) \<or>
     (\<forall>sts. get_opt (get pd (asc ''params'')) (asc ''stages'') = Some (JArr sts) \<longrightarrow>
        sts = [] \<or> JNull \<in> set sts)"
proof -
  have n: "method_name_of pf pd = None \<longleftrightarrow>
     (truthy (get pd (asc ''method'')) \<and> get pd (asc ''method'') = None) \<or>
     (\<not> truthy (get pd (asc ''method'')) \<and>
      to_string (Number_toString pf) (the (get pd (asc ''equipment''))) = None)"
    by (simp add: method_name_of_def split: option.splits)
  have t: "\<not> (truthy (get pd (asc ''method'')) \<and> get pd (asc ''method'') = None)"
    by (cases "get pd (asc ''method'')") auto
  have "method_of_json pf pd = None \<longleftrightarrow>
     pd = JNull \<or>
     (\<not> truthy (get pd (asc ''method'')) \<and> \<not> truthy (get pd (asc ''equipment''))) \<or>
     method_name_of pf pd = None \<or>
     parse_json_stages (get pd (asc ''params'')) = None \<or>
     parse_json_stages (get pd (asc ''params'')) = Some []"
    by (auto simp: method_of_json_def Let_def split: option.splits)
  also have "\<dots> \<longleftrightarrow>
     pd = JNull \<or>
     (\<not> truthy (get pd (asc ''method'')) \<and> \<not> truthy (get pd (asc ''equipment''))) \<or>
     (\<not> truthy (get pd (asc ''method'')) \<and>
      to_string (Number_toString pf) (the (get pd (asc ''equipment''))) = None) \<or>
     (\<forall>sts. get_opt (get pd (asc ''params'')) (asc ''stages'') = Some (JArr sts) \<longrightarrow>
        sts = [] \<or> JNull \<in> set sts)"
    unfolding parse_json_stages_None parse_json_stages_Nil n using t by auto
  finally show ?thesis .
qed

lemma to_string_object:
  "to_string num (JObj kvs) = None \<longleftrightarrow> map_of kvs (asc ''toString'') \<noteq> None"
  by simp

lemma to_string_primitive:
  "to_string num JNull \<noteq> None" "to_string num (JBool b) \<noteq> None"
  "to_string num (JNum x) \<noteq> None" "to_string num (JStr s) \<noteq> None"
  by simp_all

lemma method_of_json_defaults:
  assumes "method_of_json pf pd = Some m"
  shows "j_coffee m = or_else (get_opt (get pd (asc ''params'')) (asc ''coffee'')) (JStr (asc ''15g''))"
    and "j_params_water m = or_else (get_opt (get pd (asc ''params'')) (asc ''water'')) (JStr (asc ''225g''))"
    and "j_ratio m = or_else (get_opt (get pd (asc ''params'')) (asc ''ratio'')) (JStr (asc ''1:15''))"
    and "j_grindSize m = or_else (get_opt (get pd (asc ''params'')) (asc ''grindSize'')) (JStr w_mediumFine)"
    and "j_temp m = or_else (get_opt (get pd (asc ''params'')) (asc ''temp'')) (JStr w_92C)"
    and "j_id m = fresh_id pf"
  using assms by (auto simp: method_of_json_def Let_def split: if_splits option.splits)

lemma or_else_absent: "or_else None d = d"
  by (simp add: or_else_def)

lemma spiral_parsed:
  "parseMethodFromJson example_platform json_spiral_text =
     Some \<lparr>j_id = asc ''1700000000000-4fzyo82mv'', j_name = JStr (asc ''X''),
       j_coffee = JStr (asc ''15g''), j_params_water = JStr (asc ''225g''),
       j_ratio = JStr (asc ''1:15''), j_grindSize = JStr w_mediumFine, j_temp = JStr w_92C,
       j_videoUrl = JStr [],
       j_stages = [\<lparr>j_time = JNum 0, j_pourTime = JNum 0, j_label = JStr [], j_water = JStr [],
         j_detail = JStr [], j_pourType = JStr (asc ''circle''), j_valveStatus = JStr []\<rparr>]\<rparr>"
  by (simp add: json_examples json_parse_defs)

subsection \<open>C2: the identity of an imported method\<close>

text \<open>
  C2, as stated, fails for \<^verbatim>\<open>parseMethodText\<close>: a text that carries the tag
  \<^verbatim>\<open>@METHOD_ID:method-abc@\<close> is parsed to a method with the id \<^verbatim>\<open>method-abc\<close> of the imported
  data, not with a fresh \<^verbatim>\<open>method-<clock>\<close>.
\<close>

theorem import_id_counterexample:
  "method_id (parseMethodText 1700000000000
     (hdr_method @ asc ''X\<newline>@METHOD_ID:method-abc@'')) = asc ''method-abc''"
  by (simp add: parseMethodText_def parse_method_id_def re_method_id_def hdr_method_def asc_def)

text \<open>
  C2, amended: every method that \<^verbatim>\<open>parseMethodFromJson\<close> returns has the fresh id made of the
  clock and the random text, whatever the input holds; \<^verbatim>\<open>parseMethodText\<close> returns the fresh
  id \<^verbatim>\<open>method-<clock>\<close> for a text without the tag \<^verbatim>\<open>@METHOD_ID:\<close>, and the id embedded in the
  tag \<^verbatim>\<open>@METHOD_ID:method-<token>@\<close> when the text has one.
\<close>

theorem import_ids:
  "(\<forall>m. parseMethodFromJson pf s = Some m \<longrightarrow> j_id m = fresh_id pf) \<and>
   (\<not> includes_str text (asc ''@METHOD_ID:'') \<longrightarrow>
      method_id (parseMethodText now text) = asc ''method-'' @ dec now) \<and>
   (\<forall>a p i b. search re_method_id text = Some [a, p, i, b] \<longrightarrow>
      method_id (parseMethodText now text) = p @ i)"
proof (intro conjI allI impI)
  fix m
  assume "parseMethodFromJson pf s = Some m"
  then obtain pd where "method_of_json pf pd = Some m"
    by (auto simp: parseMethodFromJson_def split: option.splits)
  then show "j_id m = fresh_id pf" by (rule method_of_json_defaults)
next
  assume "\<not> includes_str text (asc ''@METHOD_ID:'')"
  then have "search re_method_id text = None"
    unfolding re_method_id_def by (rule search_no_label)
  then show "method_id (parseMethodText now text) = asc ''method-'' @ dec now"
    by (simp add: parseMethodText_def parse_method_id_def)
next
  fix a p i b
  assume "search re_method_id text = Some [a, p, i, b]"
  then show "method_id (parseMethodText now text) = p @ i"
    by (simp add: parseMethodText_def parse_method_id_def)
qed

theorem import_ids_witness:
  "j_id (the (parseMethodFromJson example_platform json_spiral_text)) =
     asc ''1700000000000-4fzyo82mv'' \<and>
   get json_spiral (asc ''id'') = Some (JStr (asc ''old-1'')) \<and>
   method_id (parseMethodText 1700000000000 (methodToReadableText example_method)) =
     asc ''method-1700000000000'' \<and>
   method_id (parseMethodText 1700000000000
     (hdr_method @ asc ''X\<newline>@METHOD_ID:method-abc@'')) = asc ''method-abc''"
proof -
  let ?tagged = "hdr_method @ asc ''X\<newline>@METHOD_ID:method-abc@''"
  note ids = import_ids [of example_platform json_spiral_text
      "methodToReadableText example_method" 1700000000000]
  have 1: "j_id (the (parseMethodFromJson example_platform json_spiral_text)) =
      fresh_id example_platform"
    using ids spiral_parsed by simp
  have "\<not> includes_str (methodToReadableText example_method) (asc ''@METHOD_ID:'')"
    by (simp add: example_method_def method_format_defs method_words)
  with ids have 2: "method_id (parseMethodText 1700000000000
      (methodToReadableText example_method)) = asc ''method-'' @ dec 1700000000000"
    by blast
  have "search re_method_id ?tagged =
      Some [asc ''@METHOD_ID:'', asc ''method-'', asc ''abc'', asc ''@'']"
    by (simp add: re_method_id_def hdr_method_def asc_def)
  with import_ids [of example_platform json_spiral_text ?tagged 1700000000000]
  have 3: "method_id (parseMethodText 1700000000000 ?tagged) = asc ''method-'' @ asc ''abc''"
    by blast
  from 1 2 3 show ?thesis
    by (simp add: fresh_id_def dec.simps json_examples)
qed

subsection \<open>C5: when the import fails, and the defaults\<close>

text \<open>
  C5, as stated, fails: the claim lists three reasons for \<^verbatim>\<open>null\<close> and says there is no
  other. The text \<^verbatim>\<open>{"method":"","params":{"stages":[{}]}}\<close> is valid JSON, has a \<^verbatim>\<open>method\<close>
  field and a stage list of one entry, and is rejected: the test of the two fields is a
  test of truthiness, and the empty name is falsy.
\<close>

theorem import_null_counterexample:
  "JSON_parse example_platform json_empty_name_text = Some json_empty_name \<and>
   get json_empty_name (asc ''method'') = Some (JStr []) \<and>
   parse_json_stages (get json_empty_name (asc ''params'')) =
     Some [\<lparr>j_time = JNum 0, j_pourTime = JNum 0, j_label = JStr [], j_water = JStr [],
       j_detail = JStr [], j_pourType = JStr (asc ''circle''), j_valveStatus = JStr []\<rparr>] \<and>
   parseMethodFromJson example_platform json_empty_name_text = None"
  by (simp add: json_examples json_parse_defs)

text \<open>
  C5, amended: \<^verbatim>\<open>parseMethodFromJson\<close> returns \<^verbatim>\<open>null\<close>, and never throws, exactly when the input
  is not valid JSON, or the parsed value is \<^verbatim>\<open>null\<close>, or neither its \<^verbatim>\<open>method\<close> nor its
  \<^verbatim>\<open>equipment\<close> is truthy (absent, \<^verbatim>\<open>null\<close>, \<^verbatim>\<open>false\<close>, 0 or the empty string), or the
  \<^verbatim>\<open>method\<close> is not truthy and the \<^verbatim>\<open>equipment\<close> has no string (an object with a \<^verbatim>\<open>toString\<close>
  entry, \<open>to_string_object\<close>, or an array that holds one), or
  \<^verbatim>\<open>params.stages\<close> is not an array with at least one entry, or one of its entries is
  \<^verbatim>\<open>null\<close>; otherwise it returns a method in which every absent scalar parameter has its
  fixed default. (In the model every exception is a \<open>None\<close> of the function, which is
  total: nothing is thrown to the caller.)
\<close>

theorem parseMethodFromJson_null_and_defaults:
  "(parseMethodFromJson pf s = None \<longleftrightarrow>
      JSON_parse pf s = None \<or>
      (\<exists>pd. JSON_parse pf s = Some pd \<and>
         (pd = JNull \<or>
          (\<not> truthy (get pd (asc ''method'')) \<and> \<not> truthy (get pd (asc ''equipment''))) \<or>
          (\<not> truthy (get pd (asc ''method'')) \<and>
           to_string (Number_toString pf) (the (get pd (asc ''equipment''))) = None) \<or>
          (\<forall>sts. get_opt (get pd (asc ''params'')) (asc ''stages'') = Some (JArr sts) \<longrightarrow>
             sts = [] \<or> JNull \<in> set sts)))) \<and>
   (\<forall>m pd. parseMethodFromJson pf s = Some m \<and> JSON_parse pf s = Some pd \<longrightarrow>
      (get_opt (get pd (asc ''params'')) (asc ''coffee'') = None \<longrightarrow> j_coffee m = JStr (asc ''15g'')) \<and>
      (get_opt (get pd (asc ''params'')) (asc ''water'') = None \<longrightarrow> j_params_water m = JStr (asc ''225g'')) \<and>
      (get_opt (get pd (asc ''params'')) (asc ''ratio'') = None \<longrightarrow> j_ratio m = JStr (asc ''1:15'')) \<and>
      (get_opt (get pd (asc ''params'')) (asc ''grindSize'') = None \<longrightarrow> j_grindSize m = JStr w_mediumFine) \<and>
      (get_opt (get pd (asc ''params'')) (asc ''temp'') = None \<longrightarrow> j_temp m = JStr w_92C))"
proof (intro conjI allI impI)
  show "parseMethodFromJson pf s = None \<longleftrightarrow>
      JSON_parse pf s = None \<or>
      (\<exists>pd. JSON_parse pf s = Some pd \<and>
         (pd = JNull \<or>
          (\<not> truthy (get pd (asc ''method'')) \<and> \<not> truthy (get pd (asc ''equipment''))) \<or>
          (\<not> truthy (get pd (asc ''method'')) \<and>
           to_string (Number_toString pf) (the (get pd (asc ''equipment''))) = None) \<or>
          (\<forall>sts. get_opt (get pd (asc ''params'')) (asc ''stages'') = Some (JArr sts) \<longrightarrow>
             sts = [] \<or> JNull \<in> set sts)))"
    by (cases "JSON_parse pf s") (simp_all add: parseMethodFromJson_def method_of_json_None)
next
  fix m pd
  assume a: "parseMethodFromJson pf s = Some m \<and> JSON_parse pf s = Some pd"
  then have m: "method_of_json pf pd = Some m"
    by (auto simp: parseMethodFromJson_def)
  note d = method_of_json_defaults [OF m]
  { assume "get_opt (get pd (asc ''params'')) (asc ''coffee'') = None"
    then show "j_coffee m = JStr (asc ''15g'')" by (simp add: d or_else_absent) }
  { assume "get_opt (get pd (asc ''params'')) (asc ''water'') = None"
    then show "j_params_water m = JStr (asc ''225g'')" by (simp add: d or_else_absent) }
  { assume "get_opt (get pd (asc ''params'')) (asc ''ratio'') = None"
    then show "j_ratio m = JStr (asc ''1:15'')" by (simp add: d or_else_absent) }
  { assume "get_opt (get pd (asc ''params'')) (asc ''grindSize'') = None"
    then show "j_grindSize m = JStr w_mediumFine" by (simp add: d or_else_absent) }
  { assume "get_opt (get pd (asc ''params'')) (asc ''temp'') = None"
    then show "j_temp m = JStr w_92C" by (simp add: d or_else_absent) }
qed

theorem parseMethodFromJson_null_and_defaults_witness:
  "parseMethodFromJson example_platform json_no_stages_text = None \<and>
   parseMethodFromJson example_platform (asc ''{}'') = None \<and>
   parseMethodFromJson example_platform json_null_stage_text = None \<and>
   parseMethodFromJson example_platform (asc ''not json'') = None \<and>
   parseMethodFromJson example_platform json_no_string_text = None \<and>
   j_coffee (the (parseMethodFromJson example_platform json_spiral_text)) = JStr (asc ''15g'') \<and>
   j_params_water (the (parseMethodFromJson example_platform json_spiral_text)) =
     JStr (asc ''225g'') \<and>
   j_ratio (the (parseMethodFromJson example_platform json_spiral_text)) = JStr (asc ''1:15'') \<and>
   j_grindSize (the (parseMethodFromJson example_platform json_spiral_text)) =
     JStr w_mediumFine \<and>
   j_temp (the (parseMethodFromJson example_platform json_spiral_text)) = JStr w_92C"
proof -
  have p: "JSON_parse example_platform json_no_stages_text = Some json_no_stages"
    "JSON_parse example_platform (asc ''{}'') = Some (JObj [])"
    "JSON_parse example_platform json_null_stage_text = Some json_null_stage"
    "JSON_parse example_platform (asc ''not json'') = None"
    "JSON_parse example_platform json_spiral_text = Some json_spiral"
    "JSON_parse example_platform json_no_string_text = Some json_no_string"
    by (simp_all add: json_examples)
  have 1: "parseMethodFromJson example_platform json_no_stages_text = None"
    using parseMethodFromJson_null_and_defaults [of example_platform json_no_stages_text] p(1)
    by (simp add: json_no_stages_def asc_def)
  have 2: "parseMethodFromJson example_platform (asc ''{}'') = None"
    using parseMethodFromJson_null_and_defaults [of example_platform "asc ''{}''"] p(2)
    by simp
  have 3: "parseMethodFromJson example_platform json_null_stage_text = None"
    using parseMethodFromJson_null_and_defaults [of example_platform json_null_stage_text] p(3)
    by (simp add: json_null_stage_def asc_def)
  have 4: "parseMethodFromJson example_platform (asc ''not json'') = None"
    using parseMethodFromJson_null_and_defaults [of example_platform "asc ''not json''"] p(4)
    by simp
  have 5: "parseMethodFromJson example_platform json_no_string_text = None"
    using parseMethodFromJson_null_and_defaults [of example_platform json_no_string_text] p(6)
    by (simp add: json_no_string_def asc_def)
  have a: "get_opt (get json_spiral (asc ''params'')) k = None" if "k \<noteq> asc ''stages''" for k
    using that by (simp add: json_spiral_def asc_def)
  have k: "asc ''coffee'' \<noteq> asc ''stages''" "asc ''water'' \<noteq> asc ''stages''"
    "asc ''ratio'' \<noteq> asc ''stages''" "asc ''grindSize'' \<noteq> asc ''stages''"
    "asc ''temp'' \<noteq> asc ''stages''"
    by (simp_all add: asc_def)
  from spiral_parsed obtain m where
    m: "parseMethodFromJson example_platform json_spiral_text = Some m"
    by blast
  from parseMethodFromJson_null_and_defaults [of example_platform json_spiral_text] m p(5)
    a [OF k(1)] a [OF k(2)] a [OF k(3)] a [OF k(4)] a [OF k(5)]
  have "j_coffee m = JStr (asc ''15g'') \<and> j_params_water m = JStr (asc ''225g'') \<and>
    j_ratio m = JStr (asc ''1:15'') \<and> j_grindSize m = JStr w_mediumFine \<and>
    j_temp m = JStr w_92C"
    by blast
  with m 1 2 3 4 5 show ?thesis by simp
qed

subsection \<open>C6: pour type and valve status of an imported stage\<close>

text \<open>
  C6: every stage of a method returned by \<^verbatim>\<open>parseMethodFromJson\<close> comes from the entry of the
  input's stage array at the same index; its pour type is one of \<^verbatim>\<open>center\<close>, \<^verbatim>\<open>circle\<close>,
  \<^verbatim>\<open>ice\<close>, \<^verbatim>\<open>other\<close>, namely the entry's own when that is one of the four and \<^verbatim>\<open>circle\<close> for
  anything else (\<^verbatim>\<open>spiral\<close>, another text, another kind of value, none); its valve status
  is \<^verbatim>\<open>open\<close>, \<^verbatim>\<open>closed\<close> or the empty string, namely the entry's own when that is \<^verbatim>\<open>open\<close>
  or \<^verbatim>\<open>closed\<close> and the empty string for anything else.
\<close>

theorem stage_enums_normalized:
  assumes "parseMethodFromJson pf s = Some m"
  shows "\<exists>pd sts. JSON_parse pf s = Some pd \<and>
      get_opt (get pd (asc ''params'')) (asc ''stages'') = Some (JArr sts) \<and>
      length (j_stages m) = length sts \<and>
      (\<forall>i<length sts.
         j_pourType (j_stages m ! i) \<in> pour_types \<and>
         j_valveStatus (j_stages m ! i) \<in> valve_states \<and>
         j_pourType (j_stages m ! i) =
           (if get (sts ! i) (asc ''pourType'') \<in> Some ` pour_types
            then the (get (sts ! i) (asc ''pourType'')) else JStr (asc ''circle'')) \<and>
         j_valveStatus (j_stages m ! i) =
           (if get (sts ! i) (asc ''valveStatus'') \<in> {Some (JStr (asc ''open'')), Some (JStr (asc ''closed''))}
            then the (get (sts ! i) (asc ''valveStatus'')) else JStr []))"
proof -
  from assms obtain pd where pd: "JSON_parse pf s = Some pd" "method_of_json pf pd = Some m"
    by (auto simp: parseMethodFromJson_def split: option.splits)
  from method_of_json_stages [OF pd(2)] obtain sts where
    sts: "get_opt (get pd (asc ''params'')) (asc ''stages'') = Some (JArr sts)"
      "parse_stage_list sts = Some (j_stages m)"
    by blast
  from parse_stage_list_nth [OF sts(2)] have
    len: "length (j_stages m) = length sts" and
    nth: "\<And>i. i < length sts \<Longrightarrow> parse_stage (sts ! i) = Some (j_stages m ! i)"
    by auto
  have "j_pourType (j_stages m ! i) \<in> pour_types \<and>
         j_valveStatus (j_stages m ! i) \<in> valve_states \<and>
         j_pourType (j_stages m ! i) =
           (if get (sts ! i) (asc ''pourType'') \<in> Some ` pour_types
            then the (get (sts ! i) (asc ''pourType'')) else JStr (asc ''circle'')) \<and>
         j_valveStatus (j_stages m ! i) =
           (if get (sts ! i) (asc ''valveStatus'') \<in> {Some (JStr (asc ''open'')), Some (JStr (asc ''closed''))}
            then the (get (sts ! i) (asc ''valveStatus'')) else JStr [])" if "i < length sts" for i
  proof -
    from parse_stage_fields [OF nth [OF that]] have
      p: "j_pourType (j_stages m ! i) = norm_pourType (get (sts ! i) (asc ''pourType''))" and
      v: "j_valveStatus (j_stages m ! i) = norm_valveStatus (get (sts ! i) (asc ''valveStatus''))"
      by auto
    have iff: "get (sts ! i) (asc ''pourType'') \<in> Some ` pour_types \<longleftrightarrow>
        get (sts ! i) (asc ''pourType'') = Some (JStr (asc ''center'')) \<or>
        get (sts ! i) (asc ''pourType'') = Some (JStr (asc ''circle'')) \<or>
        get (sts ! i) (asc ''pourType'') = Some (JStr (asc ''ice'')) \<or>
        get (sts ! i) (asc ''pourType'') = Some (JStr (asc ''other''))"
      by (auto simp: pour_types_def)
    have e1: "j_pourType (j_stages m ! i) \<in> pour_types"
      by (simp only: p norm_pourType_enum)
    have e2: "j_valveStatus (j_stages m ! i) \<in> valve_states"
      by (simp only: v norm_valveStatus_enum)
    have e3: "j_pourType (j_stages m ! i) =
           (if get (sts ! i) (asc ''pourType'') \<in> Some ` pour_types
            then the (get (sts ! i) (asc ''pourType'')) else JStr (asc ''circle''))"
      by (simp only: p norm_pourType_cases iff)
    have e4: "j_valveStatus (j_stages m ! i) =
           (if get (sts ! i) (asc ''valveStatus'') \<in> {Some (JStr (asc ''open'')), Some (JStr (asc ''closed''))}
            then the (get (sts ! i) (asc ''valveStatus'')) else JStr [])"
      by (simp add: v norm_valveStatus_cases)
    from e1 e2 e3 e4 show ?thesis by (intro conjI)
  qed
  with pd(1) sts(1) len show ?thesis by blast
qed

theorem stage_enums_normalized_witness:
  "parseMethodFromJson example_platform json_spiral_text \<noteq> None \<and>
   JSON_parse example_platform json_spiral_text = Some json_spiral \<and>
   get_opt (get json_spiral (asc ''params'')) (asc ''stages'') =
     Some (JArr [JObj [(asc ''pourType'', JStr (asc ''spiral'')),
                       (asc ''valveStatus'', JStr (asc ''halfopen''))]]) \<and>
   map j_pourType (j_stages (the (parseMethodFromJson example_platform json_spiral_text))) =
     [JStr (asc ''circle'')] \<and>
   map j_valveStatus (j_stages (the (parseMethodFromJson example_platform json_spiral_text))) =
     [JStr []]"
proof -
  from spiral_parsed obtain m where
    m: "parseMethodFromJson example_platform json_spiral_text = Some m"
    by blast
  have p: "JSON_parse example_platform json_spiral_text = Some json_spiral"
    by (simp add: json_examples)
  have s: "get_opt (get json_spiral (asc ''params'')) (asc ''stages'') =
     Some (JArr [JObj [(asc ''pourType'', JStr (asc ''spiral'')),
                       (asc ''valveStatus'', JStr (asc ''halfopen''))]])"
    by (simp add: json_spiral_def asc_def)
  from stage_enums_normalized [OF m] p s have
    len: "length (j_stages m) = 1" and
    e: "j_pourType (j_stages m ! 0) =
           (if get (JObj [(asc ''pourType'', JStr (asc ''spiral'')),
                       (asc ''valveStatus'', JStr (asc ''halfopen''))]) (asc ''pourType'')
               \<in> Some ` pour_types
            then the (get (JObj [(asc ''pourType'', JStr (asc ''spiral'')),
                       (asc ''valveStatus'', JStr (asc ''halfopen''))]) (asc ''pourType''))
            else JStr (asc ''circle''))"
      "j_valveStatus (j_stages m ! 0) =
           (if get (JObj [(asc ''pourType'', JStr (asc ''spiral'')),
                       (asc ''valveStatus'', JStr (asc ''halfopen''))]) (asc ''valveStatus'')
               \<in> {Some (JStr (asc ''open'')), Some (JStr (asc ''closed''))}
            then the (get (JObj [(asc ''pourType'', JStr (asc ''spiral'')),
                       (asc ''valveStatus'', JStr (asc ''halfopen''))]) (asc ''valveStatus''))
            else JStr [])"
    by auto
  from e have "j_pourType (j_stages m ! 0) = JStr (asc ''circle'')"
    "j_valveStatus (j_stages m ! 0) = JStr []"
    by (simp_all add: pour_types_def asc_def)
  with len have "map j_pourType (j_stages m) = [JStr (asc ''circle'')]"
    "map j_valveStatus (j_stages m) = [JStr []]"
    by (cases "j_stages m"; simp)+
  with m p s show ?thesis by simp
qed

section \<open>Claims about the dispatcher\<close>

subsection \<open>C4: the order of the four tiers\<close>

lemma json_block_sound:
  assumes "json_block text = Some v"
  shows "\<exists>pre post. text = pre @ asc ''<!--JSON_DATA:'' @ v @ asc ''-->'' @ post"
proof -
  from assms obtain a c where "search re_json_data text = Some [a, v, c]"
    by (auto simp: json_block_def split: option.splits list.splits)
  from search_Some [OF this] obtain pre t where
    t: "text = pre @ t" "matchAt re_json_data t = Some [a, v, c]"
    by blast
  from t(2) have "match_atom (Lit (asc ''<!--JSON_DATA:''))
      (matchAt [LazyStar Any, Lit (asc ''-->'')]) t = Some [a, v, c]"
    by (simp add: re_json_data_def)
  from match_atom_consumes [OF this] obtain t1 where
    1: "t = a @ t1" "matchAt [LazyStar Any, Lit (asc ''-->'')] t1 = Some [v, c]"
    by auto
  have a: "a = asc ''<!--JSON_DATA:''"
    using t(2) by (auto simp: re_json_data_def split: if_splits)
  from 1(2) have "match_atom (LazyStar Any) (matchAt [Lit (asc ''-->'')]) t1 = Some [v, c]"
    by simp
  from match_atom_consumes [OF this] obtain t2 where
    2: "t1 = v @ t2" "matchAt [Lit (asc ''-->'')] t2 = Some [c]"
    by auto
  from 2(2) obtain post where "t2 = asc ''-->'' @ post"
    by (auto simp: prefix_def split: if_splits)
  with t(1) 1(1) 2(1) a show ?thesis by blast
qed

lemma json_block_absent:
  "\<not> includes_str text (asc ''<!--JSON_DATA:'') \<Longrightarrow> json_block text = None"
  by (simp add: json_block_def re_json_data_def search_no_label)

text \<open>
  C4, as stated, fails on an empty block: the claim says that a text with a
  \<^verbatim>\<open><!--JSON_DATA:...-->\<close> block gets that block's parsed contents (\<^verbatim>\<open>null\<close> when parsing them
  throws, as it does for the empty text). The code uses the block only when its contents
  are not empty; the text \<^verbatim>\<open><!--JSON_DATA:-->@DATA_TYPE:COFFEE_BEAN@\<close> has a block, and is
  routed on to the bean parser.
\<close>

theorem empty_block_counterexample:
  "JSON_parse example_platform (asc ''<!--JSON_DATA:-->@DATA_TYPE:COFFEE_BEAN@'') = None \<and>
   json_block (asc ''<!--JSON_DATA:-->@DATA_TYPE:COFFEE_BEAN@'') = Some [] \<and>
   JSON_parse example_platform [] = None \<and>
   extractJsonFromText example_platform (asc ''<!--JSON_DATA:-->@DATA_TYPE:COFFEE_BEAN@'') =
     Bean (parseCoffeeBeanText (asc ''<!--JSON_DATA:-->@DATA_TYPE:COFFEE_BEAN@''))"
  by (simp add: extractJsonFromText_def route_text_def json_block_def re_json_data_def
      marker_bean_def json_examples)

text \<open>
  C4, amended: \<^verbatim>\<open>extractJsonFromText\<close> applies a fixed order. If the whole text parses as JSON
  it returns the parsed value as it is; else, if the first \<^verbatim>\<open><!--JSON_DATA:...-->\<close> block has
  contents that are not empty, it returns those contents parsed, and \<^verbatim>\<open>null\<close> when parsing
  them throws; else (no block, or an empty one) it returns the result of the text parser
  of the first type marker found, bean before method before note; else that of the
  first section header found, in the same order; else \<^verbatim>\<open>null\<close>.
\<close>

theorem dispatcher_priority:
  "(\<forall>data. JSON_parse pf text = Some data \<longrightarrow> extractJsonFromText pf text = Data data) \<and>
   (JSON_parse pf text = None \<longrightarrow>
      (\<forall>v. json_block text = Some v \<and> v \<noteq> [] \<longrightarrow>
         extractJsonFromText pf text =
           (case JSON_parse pf v of Some data \<Rightarrow> Data data | None \<Rightarrow> Null)) \<and>
      (json_block text = None \<or> json_block text = Some [] \<longrightarrow>
         extractJsonFromText pf text =
           (if includes_str text marker_bean then Bean (parseCoffeeBeanText text)
            else if includes_str text marker_method
              then Method (parseMethodText (Date_now pf) text)
            else if includes_str text marker_note
              then Note (parseBrewingNoteText (Date_now pf) text)
            else if includes_str text hdr_bean then Bean (parseCoffeeBeanText text)
            else if includes_str text hdr_method
              then Method (parseMethodText (Date_now pf) text)
            else if includes_str text hdr_note
              then Note (parseBrewingNoteText (Date_now pf) text)
            else Null)))"
  by (auto simp: extractJsonFromText_def route_text_def)

theorem dispatcher_priority_witness:
  "extractJsonFromText example_platform (asc ''{}'') = Data (JObj []) \<and>
   extractJsonFromText example_platform (asc ''<!--JSON_DATA:{}-->@DATA_TYPE:COFFEE_BEAN@'') =
     Data (JObj []) \<and>
   extractJsonFromText example_platform (methodToReadableText example_method) =
     Method (parseMethodText (Date_now example_platform) (methodToReadableText example_method)) \<and>
   extractJsonFromText example_platform (asc ''not json and no markers'') = Null"
proof -
  let ?block = "asc ''<!--JSON_DATA:{}-->@DATA_TYPE:COFFEE_BEAN@''"
  let ?m = "methodToReadableText example_method"
  let ?none = "asc ''not json and no markers''"
  have 1: "extractJsonFromText example_platform (asc ''{}'') = Data (JObj [])"
    using dispatcher_priority [of example_platform "asc ''{}''"]
    by (simp add: json_examples)
  have "JSON_parse example_platform ?block = None" "json_block ?block = Some (asc ''{}'')"
    "JSON_parse example_platform (asc ''{}'') = Some (JObj [])"
    by (simp_all add: json_block_def re_json_data_def json_examples)
  with dispatcher_priority [of example_platform ?block]
  have 2: "extractJsonFromText example_platform ?block = Data (JObj [])"
    by (simp add: asc_def)
  have "JSON_parse example_platform ?m = None" "json_block ?m = None"
    "\<not> includes_str ?m marker_bean" "includes_str ?m marker_method"
    by (simp_all add: json_block_def re_json_data_def json_examples example_method_def
        method_format_defs method_words marker_bean_def)
  with dispatcher_priority [of example_platform ?m]
  have 3: "extractJsonFromText example_platform ?m =
     Method (parseMethodText (Date_now example_platform) ?m)"
    by simp
  have "JSON_parse example_platform ?none = None" "json_block ?none = None"
    "\<not> includes_str ?none marker_bean" "\<not> includes_str ?none marker_method"
    "\<not> includes_str ?none marker_note" "\<not> includes_str ?none hdr_bean"
    "\<not> includes_str ?none hdr_method" "\<not> includes_str ?none hdr_note"
    by (simp_all add: json_block_def re_json_data_def json_examples marker_bean_def
        marker_method_def marker_note_def hdr_bean_def hdr_method_def hdr_note_def)
  with dispatcher_priority [of example_platform ?none]
  have 4: "extractJsonFromText example_platform ?none = Null"
    by simp
  from 1 2 3 4 show ?thesis by simp
qed

end
